theory Spec2Isabelle
  imports Main "HOL-Library.Word"
begin

section \<open>The settings screen of the reader firmware\<close>

text \<open>
  A shallow embedding of \<^verbatim>\<open>src/activities/settings/SettingsActivity.cpp\<close>: the four
  descriptor tables, \<^verbatim>\<open>onEnter\<close>, \<^verbatim>\<open>loop\<close> and \<^verbatim>\<open>toggleCurrentSetting\<close>.
  Rendering, the display task and its mutex are not part of the model.
\<close>

subsection \<open>Descriptors\<close>

datatype SettingType = TOGGLE | ENUM | VALUE | ACTION

text \<open>
  Modelled from the spec: \<^verbatim>\<open>CrossPointSettings.h\<close> is not among the sources. The
  members of \<^verbatim>\<open>CrossPointSettings\<close> are the ones that the tables bind, each a small
  integer of eight bits. A member pointer is one of these names; \<^verbatim>\<open>nullptr\<close> is
  \<open>None\<close>.
\<close>

datatype Field =
    sleepScreen | sleepScreenCoverMode | sleepScreenCoverFilter | statusBar
  | hideBatteryPercentage | refreshFrequency | uiTheme
  | fontFamily | fontSize | lineSpacing | screenMargin | paragraphAlignment
  | hyphenationEnabled | orientation | extraParagraphSpacing | textAntiAliasing
  | sideButtonLayout | longPressChapterSkip | shortPwrBtn
  | sleepTimeout

text \<open>
  Modelled from the spec: the declaration of \<^verbatim>\<open>SettingInfo::ValueRange\<close> is in
  \<^verbatim>\<open>SettingsActivity.h\<close>, which is not among the sources. The spec gives a range
  \<open>{min, max, step}\<close> of small integers; each component is kept as the integer it
  denotes, so that the model does not depend on the signedness of the declaration.
\<close>

record ValueRange =
  min_r :: int
  max_r :: int
  step_r :: int

text \<open>
  Modelled from the spec: \<^verbatim>\<open>SettingInfo\<close> is declared in the same missing header.
  The members are the ones \<^verbatim>\<open>toggleCurrentSetting\<close> reads: \<^verbatim>\<open>name\<close>, \<^verbatim>\<open>type\<close>,
  \<^verbatim>\<open>valuePtr\<close>, \<^verbatim>\<open>enumValues\<close> and \<^verbatim>\<open>valueRange\<close>.
\<close>

record SettingInfo =
  name :: string
  type_s :: SettingType
  valuePtr :: "Field option"
  enumValues :: "string list"
  valueRange :: ValueRange

text \<open>
  Modelled from the spec: the four factory functions of \<^verbatim>\<open>SettingInfo\<close>. A Toggle has a
  name and a bound field; an Enum a name, a bound field and its labels; a Value a name, a
  bound field and a range; an Action a name only and no bound field.
\<close>

definition Toggle :: "string \<Rightarrow> Field \<Rightarrow> SettingInfo" where
  "Toggle n p = \<lparr>name = n, type_s = TOGGLE, valuePtr = Some p, enumValues = [],
     valueRange = \<lparr>min_r = 0, max_r = 0, step_r = 0\<rparr>\<rparr>"

definition Enum :: "string \<Rightarrow> Field \<Rightarrow> string list \<Rightarrow> SettingInfo" where
  "Enum n p labels = \<lparr>name = n, type_s = ENUM, valuePtr = Some p, enumValues = labels,
     valueRange = \<lparr>min_r = 0, max_r = 0, step_r = 0\<rparr>\<rparr>"

definition Value :: "string \<Rightarrow> Field \<Rightarrow> ValueRange \<Rightarrow> SettingInfo" where
  "Value n p r = \<lparr>name = n, type_s = VALUE, valuePtr = Some p, enumValues = [],
     valueRange = r\<rparr>"

definition Action :: "string \<Rightarrow> SettingInfo" where
  "Action n = \<lparr>name = n, type_s = ACTION, valuePtr = None, enumValues = [],
     valueRange = \<lparr>min_r = 0, max_r = 0, step_r = 0\<rparr>\<rparr>"

subsection \<open>The category tables (lines 16 to 65)\<close>

definition categoryCount :: int where
  "categoryCount = 4"

definition categoryNames :: "string list" where
  "categoryNames = [''Display'', ''Reader'', ''Controls'', ''System'']"

definition changeTabsMs :: nat where
  "changeTabsMs = 700"

definition displaySettingsCount :: int where
  "displaySettingsCount = 7"

definition displaySettings :: "SettingInfo list" where
  "displaySettings =
    [Enum ''Sleep Screen'' sleepScreen
       [''Dark'', ''Light'', ''Custom'', ''Cover'', ''None'', ''Cover + Custom''],
     Enum ''Sleep Screen Cover Mode'' sleepScreenCoverMode [''Fit'', ''Crop''],
     Enum ''Sleep Screen Cover Filter'' sleepScreenCoverFilter
       [''None'', ''Contrast'', ''Inverted''],
     Enum ''Status Bar'' statusBar
       [''None'', ''No Progress'', ''Full w/ Percentage'', ''Full w/ Progress Bar'',
        ''Progress Bar''],
     Enum ''Hide Battery %'' hideBatteryPercentage [''Never'', ''In Reader'', ''Always''],
     Enum ''Refresh Frequency'' refreshFrequency
       [''1 page'', ''5 pages'', ''10 pages'', ''15 pages'', ''30 pages''],
     Enum ''UI Theme'' uiTheme [''Classic'', ''Lyra'']]"

definition readerSettingsCount :: int where
  "readerSettingsCount = 9"

definition readerSettings :: "SettingInfo list" where
  "readerSettings =
    [Enum ''Font Family'' fontFamily [''Bookerly'', ''Noto Sans'', ''Open Dyslexic''],
     Enum ''Font Size'' fontSize [''Small'', ''Medium'', ''Large'', ''X Large''],
     Enum ''Line Spacing'' lineSpacing [''Tight'', ''Normal'', ''Wide''],
     Value ''Screen Margin'' screenMargin \<lparr>min_r = 5, max_r = 40, step_r = 5\<rparr>,
     Enum ''Paragraph Alignment'' paragraphAlignment
       [''Justify'', ''Left'', ''Center'', ''Right''],
     Toggle ''Hyphenation'' hyphenationEnabled,
     Enum ''Reading Orientation'' orientation
       [''Portrait'', ''Landscape CW'', ''Inverted'', ''Landscape CCW''],
     Toggle ''Extra Paragraph Spacing'' extraParagraphSpacing,
     Toggle ''Text Anti-Aliasing'' textAntiAliasing]"

definition controlsSettingsCount :: int where
  "controlsSettingsCount = 4"

definition controlsSettings :: "SettingInfo list" where
  "controlsSettings =
    [Action ''Remap Front Buttons'',
     Enum ''Side Button Layout (reader)'' sideButtonLayout [''Prev, Next'', ''Next, Prev''],
     Toggle ''Long-press Chapter Skip'' longPressChapterSkip,
     Enum ''Short Power Button Click'' shortPwrBtn [''Ignore'', ''Sleep'', ''Page Turn'']]"

definition systemSettingsCount :: int where
  "systemSettingsCount = 5"

definition systemSettings :: "SettingInfo list" where
  "systemSettings =
    [Enum ''Time to Sleep'' sleepTimeout
       [''1 min'', ''5 min'', ''10 min'', ''15 min'', ''30 min''],
     Action ''KOReader Sync'',
     Action ''OPDS Browser'',
     Action ''Clear Cache'',
     Action ''Check for updates'']"

subsection \<open>The activity and its collaborators\<close>

text \<open>The sub-screens that \<^verbatim>\<open>toggleCurrentSetting\<close> constructs.\<close>

datatype SubActivity =
    ButtonRemapActivity | KOReaderSettingsActivity | CalibreSettingsActivity
  | ClearCacheActivity | OtaUpdateActivity

text \<open>
  Modelled from the spec: the class is declared in \<^verbatim>\<open>SettingsActivity.h\<close>, not among
  the sources, with four categories (\<open>categoryCount\<close>, as line 16 initialises them).
  The members of \<^verbatim>\<open>SettingsActivity\<close> that the three functions touch, and the global
  \<^verbatim>\<open>SETTINGS\<close> object as a store of bytes, one per bound member. The indices and the
  count are C++ \<^verbatim>\<open>int\<close>s; no operation of the model leaves the range of an \<^verbatim>\<open>int\<close> as
  long as they are within a table, so they are integers here. \<open>settingsList\<close> is the
  table the pointer refers to (empty for \<^verbatim>\<open>nullptr\<close>). \<open>saveCount\<close> counts the calls
  of \<^verbatim>\<open>SETTINGS.saveToFile()\<close> and \<open>goHomeCount\<close> the calls of \<^verbatim>\<open>onGoHome()\<close>.
\<close>

record SettingsActivity =
  selectedCategoryIndex :: int
  selectedSettingIndex :: int
  settingsList :: "SettingInfo list"
  settingsCount :: int
  updateRequired :: bool
  subActivity :: "SubActivity option"
  SETTINGS :: "Field \<Rightarrow> 8 word"
  saveCount :: nat
  goHomeCount :: nat

text \<open>
  Modelled from the spec: the input source is \<^verbatim>\<open>MappedInputManager\<close>, not among the
  sources. One sampling cycle answers \<^verbatim>\<open>wasPressed\<close> for Confirm and Back,
  \<^verbatim>\<open>wasReleased\<close> for the four directions and \<^verbatim>\<open>getHeldTime\<close> in milliseconds.
  \<open>subFinished\<close> says that the running sub-screen calls its completion callback during
  this cycle.
\<close>

record Input =
  confirmPressed :: bool
  backPressed :: bool
  upReleased :: bool
  downReleased :: bool
  leftReleased :: bool
  rightReleased :: bool
  heldTime :: nat
  subFinished :: bool

datatype error = OutOfBoundsRead | DivisionByZero

definition saveToFile :: "SettingsActivity \<Rightarrow> SettingsActivity" where
  "saveToFile s = s\<lparr>saveCount := Suc (saveCount s)\<rparr>"

definition onGoHome :: "SettingsActivity \<Rightarrow> SettingsActivity" where
  "onGoHome s = s\<lparr>goHomeCount := Suc (goHomeCount s)\<rparr>"

text \<open>
  \<^verbatim>\<open>exitActivity(); enterNewActivity(new X(...))\<close> between taking and giving the
  rendering mutex: the sub-screen \<open>X\<close> becomes the current one.
\<close>

definition enterNewActivity :: "SubActivity \<Rightarrow> SettingsActivity \<Rightarrow> SettingsActivity" where
  "enterNewActivity a s = s\<lparr>subActivity := Some a\<rparr>"

text \<open>The completion callback of every sub-screen: \<^verbatim>\<open>exitActivity(); updateRequired = true;\<close>\<close>

definition onComplete :: "SettingsActivity \<Rightarrow> SettingsActivity" where
  "onComplete s = s\<lparr>subActivity := None, updateRequired := True\<rparr>"

subsection \<open>\<^verbatim>\<open>onEnter\<close> (lines 72 to 93)\<close>

definition onEnter :: "SettingsActivity \<Rightarrow> SettingsActivity" where
  "onEnter s = s\<lparr>selectedCategoryIndex := 0, selectedSettingIndex := 0,
     settingsList := displaySettings, settingsCount := displaySettingsCount,
     updateRequired := True\<rparr>"

subsection \<open>\<^verbatim>\<open>toggleCurrentSetting\<close> (lines 182 to 251)\<close>

text \<open>Line 193: the member is read as a \<^verbatim>\<open>bool\<close> and its negation is stored.\<close>

definition advanceToggle :: "8 word \<Rightarrow> 8 word" where
  "advanceToggle v = (let currentValue = (v \<noteq> 0) in of_bool (\<not> currentValue))"

text \<open>
  Lines 195 and 196: the member is read as a \<^verbatim>\<open>uint8_t\<close>, the number of labels is cast
  to \<^verbatim>\<open>uint8_t\<close>, and the remainder is taken on \<^verbatim>\<open>int\<close>s. A remainder by zero is
  undefined in C++.
\<close>

definition advanceEnum :: "nat \<Rightarrow> 8 word \<Rightarrow> error + 8 word" where
  "advanceEnum size_v v =
     (let currentValue = unat v; n = unat (word_of_nat size_v :: 8 word)
      in if n = 0 then Inl DivisionByZero
         else Inr (word_of_nat ((currentValue + 1) mod n)))"

text \<open>
  Lines 198 to 203: the member is read as an \<^verbatim>\<open>int8_t\<close>, the sum and the comparison
  are on \<^verbatim>\<open>int\<close>s, and the result is stored back into the byte.
\<close>

definition advanceValue :: "ValueRange \<Rightarrow> 8 word \<Rightarrow> 8 word" where
  "advanceValue r v =
     (let currentValue = sint v
      in if currentValue + step_r r > max_r r then word_of_int (min_r r)
         else word_of_int (currentValue + step_r r))"

text \<open>Lines 205 to 245: the chain of \<^verbatim>\<open>strcmp\<close>s on the name of an Action.\<close>

definition dispatchAction :: "string \<Rightarrow> SettingsActivity \<Rightarrow> SettingsActivity" where
  "dispatchAction n s =
     (if n = ''Remap Front Buttons'' then enterNewActivity ButtonRemapActivity s
      else if n = ''KOReader Sync'' then enterNewActivity KOReaderSettingsActivity s
      else if n = ''OPDS Browser'' then enterNewActivity CalibreSettingsActivity s
      else if n = ''Clear Cache'' then enterNewActivity ClearCacheActivity s
      else if n = ''Check for updates'' then enterNewActivity OtaUpdateActivity s
      else s)"

definition setField :: "Field \<Rightarrow> 8 word \<Rightarrow> SettingsActivity \<Rightarrow> SettingsActivity" where
  "setField f v s = s\<lparr>SETTINGS := (SETTINGS s)(f := v)\<rparr>"

text \<open>
  The index into \<open>settingsList\<close> is checked against \<open>settingsCount\<close> only; a read
  beyond the table itself is undefined in C++ and is an error of the model.
\<close>

definition toggleCurrentSetting :: "SettingsActivity \<Rightarrow> error + SettingsActivity" where
  "toggleCurrentSetting s =
     (let selectedSetting = selectedSettingIndex s - 1
      in if selectedSetting < 0 \<or> selectedSetting \<ge> settingsCount s then Inr s
         else if nat selectedSetting \<ge> length (settingsList s) then Inl OutOfBoundsRead
         else
           let setting = settingsList s ! nat selectedSetting
           in case (type_s setting, valuePtr setting) of
                (TOGGLE, Some p) \<Rightarrow>
                  Inr (saveToFile (setField p (advanceToggle (SETTINGS s p)) s))
              | (ENUM, Some p) \<Rightarrow>
                  (case advanceEnum (length (enumValues setting)) (SETTINGS s p) of
                     Inl e \<Rightarrow> Inl e
                   | Inr v \<Rightarrow> Inr (saveToFile (setField p v s)))
              | (VALUE, Some p) \<Rightarrow>
                  Inr (saveToFile (setField p (advanceValue (valueRange setting) (SETTINGS s p)) s))
              | (ACTION, _) \<Rightarrow> Inr (saveToFile (dispatchAction (name setting) s))
              | (_, None) \<Rightarrow> Inr s)"

subsection \<open>\<^verbatim>\<open>loop\<close> (lines 110 to 180)\<close>

text \<open>The two ternaries on the category index (lines 120, 145 and 149).\<close>

definition nextCategory :: "int \<Rightarrow> int" where
  "nextCategory c = (if c < categoryCount - 1 then c + 1 else 0)"

definition prevCategory :: "int \<Rightarrow> int" where
  "prevCategory c = (if c > 0 then c - 1 else categoryCount - 1)"

text \<open>
  Lines 136 to 157. The first component is the local \<^verbatim>\<open>hasChangedCategory\<close>.
\<close>

definition handleNavigation ::
  "Input \<Rightarrow> bool \<times> SettingsActivity \<Rightarrow> bool \<times> SettingsActivity" where
  "handleNavigation inp hs =
     (let hasChangedCategory = fst hs; s = snd hs;
          changeTab = (heldTime inp > changeTabsMs)
      in if upReleased inp \<and> changeTab then
           (True, s\<lparr>selectedCategoryIndex := prevCategory (selectedCategoryIndex s),
                    updateRequired := True\<rparr>)
         else if downReleased inp \<and> changeTab then
           (True, s\<lparr>selectedCategoryIndex := nextCategory (selectedCategoryIndex s),
                    updateRequired := True\<rparr>)
         else if upReleased inp \<or> leftReleased inp then
           (hasChangedCategory,
            s\<lparr>selectedSettingIndex :=
                 (if selectedSettingIndex s > 0 then selectedSettingIndex s - 1
                  else settingsCount s),
              updateRequired := True\<rparr>)
         else if rightReleased inp \<or> downReleased inp then
           (hasChangedCategory,
            s\<lparr>selectedSettingIndex :=
                 (if selectedSettingIndex s < settingsCount s then selectedSettingIndex s + 1
                  else 0),
              updateRequired := True\<rparr>)
         else (hasChangedCategory, s))"

text \<open>Lines 160 to 178; the \<^verbatim>\<open>switch\<close> has no default.\<close>

definition rebindCategory :: "SettingsActivity \<Rightarrow> SettingsActivity" where
  "rebindCategory s =
     (let s1 = s\<lparr>selectedSettingIndex := (if selectedSettingIndex s = 0 then 0 else 1)\<rparr>;
          c = selectedCategoryIndex s1
      in if c = 0 then s1\<lparr>settingsList := displaySettings, settingsCount := displaySettingsCount\<rparr>
         else if c = 1 then s1\<lparr>settingsList := readerSettings, settingsCount := readerSettingsCount\<rparr>
         else if c = 2 then s1\<lparr>settingsList := controlsSettings, settingsCount := controlsSettingsCount\<rparr>
         else if c = 3 then s1\<lparr>settingsList := systemSettings, settingsCount := systemSettingsCount\<rparr>
         else s1)"

text \<open>
  While a sub-screen is current, \<^verbatim>\<open>loop\<close> only runs the sub-screen's own \<^verbatim>\<open>loop\<close>,
  which reaches this activity through the completion callback alone.
\<close>

definition subActivityLoop :: "Input \<Rightarrow> SettingsActivity \<Rightarrow> SettingsActivity" where
  "subActivityLoop inp s = (if subFinished inp then onComplete s else s)"

definition loop :: "Input \<Rightarrow> SettingsActivity \<Rightarrow> error + SettingsActivity" where
  "loop inp s =
     (if subActivity s \<noteq> None then Inr (subActivityLoop inp s)
      else if confirmPressed inp \<and> selectedSettingIndex s \<noteq> 0 then
        (case toggleCurrentSetting s of
           Inl e \<Rightarrow> Inl e
         | Inr s1 \<Rightarrow> Inr (s1\<lparr>updateRequired := True\<rparr>))
      else
        let hs = (if confirmPressed inp
                  then (True, s\<lparr>selectedCategoryIndex := nextCategory (selectedCategoryIndex s),
                                updateRequired := True\<rparr>)
                  else (False, s))
        in if backPressed inp then Inr (onGoHome (saveToFile (snd hs)))
           else
             let hs2 = handleNavigation inp hs
             in Inr (if fst hs2 then rebindCategory (snd hs2) else snd hs2))"

subsection \<open>Cycles, focus and the invariant\<close>

text \<open>
  The main program calls \<^verbatim>\<open>loop\<close> once per sampling cycle; \<open>runLoop\<close> runs one
  cycle for each input of a list and stops at an undefined operation.
\<close>

primrec runLoop :: "Input list \<Rightarrow> SettingsActivity \<Rightarrow> error + SettingsActivity" where
  "runLoop [] s = Inr s"
| "runLoop (inp # inps) s =
     (case loop inp s of Inl e \<Rightarrow> Inl e | Inr s1 \<Rightarrow> runLoop inps s1)"

text \<open>
  The descriptor that \<^verbatim>\<open>toggleCurrentSetting\<close> reaches at line 188, when the bounds
  check of line 184 lets it through and the read is inside the table.
\<close>

definition currentSetting :: "SettingsActivity \<Rightarrow> SettingInfo option" where
  "currentSetting s =
     (let i = selectedSettingIndex s - 1
      in if 0 \<le> i \<and> i < settingsCount s \<and> nat i < length (settingsList s)
         then Some (settingsList s ! nat i) else None)"

text \<open>The table and the declared count of each category, as the \<^verbatim>\<open>switch\<close> binds them.\<close>

definition tableOf :: "int \<Rightarrow> SettingInfo list" where
  "tableOf c =
     (if c = 0 then displaySettings else if c = 1 then readerSettings
      else if c = 2 then controlsSettings else systemSettings)"

definition tableCount :: "int \<Rightarrow> int" where
  "tableCount c =
     (if c = 0 then displaySettingsCount else if c = 1 then readerSettingsCount
      else if c = 2 then controlsSettingsCount else systemSettingsCount)"

definition navInvariant :: "SettingsActivity \<Rightarrow> bool" where
  "navInvariant s \<longleftrightarrow>
     0 \<le> selectedCategoryIndex s \<and> selectedCategoryIndex s \<le> 3
     \<and> settingsList s = tableOf (selectedCategoryIndex s)
     \<and> settingsCount s = tableCount (selectedCategoryIndex s)
     \<and> 0 \<le> selectedSettingIndex s \<and> selectedSettingIndex s \<le> settingsCount s"

text \<open>
  A cycle in which neither Confirm nor Back is pressed and no release of Up or Down
  comes with a held time above the threshold: only lines 151 to 157 can act.
\<close>

definition plainDirectional :: "Input \<Rightarrow> bool" where
  "plainDirectional inp \<longleftrightarrow>
     \<not> confirmPressed inp \<and> \<not> backPressed inp
     \<and> \<not> ((upReleased inp \<or> downReleased inp) \<and> heldTime inp > changeTabsMs)"

text \<open>What a descriptor needs for its branch of \<^verbatim>\<open>toggleCurrentSetting\<close> to be defined.\<close>

definition wellFormed :: "SettingInfo \<Rightarrow> bool" where
  "wellFormed d \<longleftrightarrow>
     (type_s d = ACTION \<or> valuePtr d \<noteq> None)
     \<and> (type_s d \<noteq> ENUM \<or> (1 \<le> length (enumValues d) \<and> length (enumValues d) \<le> 255))"

text \<open>The value that a confirmation stores for a bound descriptor (lines 190 to 203).\<close>

definition advance :: "SettingInfo \<Rightarrow> 8 word \<Rightarrow> error + 8 word" where
  "advance d v =
     (case type_s d of
        TOGGLE \<Rightarrow> Inr (advanceToggle v)
      | ENUM \<Rightarrow> advanceEnum (length (enumValues d)) v
      | VALUE \<Rightarrow> Inr (advanceValue (valueRange d) v)
      | ACTION \<Rightarrow> Inr v)"

definition knownActions :: "string list" where
  "knownActions = [''Remap Front Buttons'', ''KOReader Sync'', ''OPDS Browser'',
     ''Clear Cache'', ''Check for updates'']"

subsection \<open>Concrete states and inputs\<close>

definition freshActivity :: SettingsActivity where
  "freshActivity = \<lparr>selectedCategoryIndex = 0, selectedSettingIndex = 0, settingsList = [],
     settingsCount = 0, updateRequired = False, subActivity = None,
     SETTINGS = (\<lambda>f. 0), saveCount = 0, goHomeCount = 0\<rparr>"

definition activityAt :: "int \<Rightarrow> int \<Rightarrow> SettingsActivity" where
  "activityAt c i = (onEnter freshActivity)\<lparr>selectedCategoryIndex := c,
     selectedSettingIndex := i, settingsList := tableOf c, settingsCount := tableCount c\<rparr>"

definition noInput :: Input where
  "noInput = \<lparr>confirmPressed = False, backPressed = False, upReleased = False,
     downReleased = False, leftReleased = False, rightReleased = False, heldTime = 0,
     subFinished = False\<rparr>"

definition confirmInput :: Input where
  "confirmInput = noInput\<lparr>confirmPressed := True\<rparr>"

section \<open>Properties\<close>

subsection \<open>The branches of \<^verbatim>\<open>toggleCurrentSetting\<close>\<close>

lemma toggle_TOGGLE:
  assumes "currentSetting s = Some d" "type_s d = TOGGLE" "valuePtr d = Some p"
  shows "toggleCurrentSetting s = Inr (saveToFile (setField p (advanceToggle (SETTINGS s p)) s))"
  using assms
  by (auto simp: currentSetting_def toggleCurrentSetting_def Let_def split: if_splits)

lemma toggle_ENUM:
  assumes "currentSetting s = Some d" "type_s d = ENUM" "valuePtr d = Some p"
  shows "toggleCurrentSetting s =
    (case advanceEnum (length (enumValues d)) (SETTINGS s p) of
        Inl e \<Rightarrow> Inl e | Inr v \<Rightarrow> Inr (saveToFile (setField p v s)))"
  using assms
  by (auto simp: currentSetting_def toggleCurrentSetting_def Let_def split: if_splits)

lemma toggle_VALUE:
  assumes "currentSetting s = Some d" "type_s d = VALUE" "valuePtr d = Some p"
  shows "toggleCurrentSetting s =
     Inr (saveToFile (setField p (advanceValue (valueRange d) (SETTINGS s p)) s))"
  using assms
  by (auto simp: currentSetting_def toggleCurrentSetting_def Let_def split: if_splits)

lemma toggle_ACTION:
  assumes "currentSetting s = Some d" "type_s d = ACTION"
  shows "toggleCurrentSetting s = Inr (saveToFile (dispatchAction (name d) s))"
  using assms
  by (auto simp: currentSetting_def toggleCurrentSetting_def Let_def
           split: if_splits option.splits)

lemma toggle_unbound:
  assumes "currentSetting s = Some d" "type_s d \<noteq> ACTION" "valuePtr d = None"
  shows "toggleCurrentSetting s = Inr s"
  using assms
  by (cases "type_s d")
     (auto simp: currentSetting_def toggleCurrentSetting_def Let_def split: if_splits)

lemma toggle_out_of_bounds:
  assumes "selectedSettingIndex s - 1 < 0 \<or> selectedSettingIndex s - 1 \<ge> settingsCount s"
  shows "toggleCurrentSetting s = Inr s"
  using assms by (auto simp: toggleCurrentSetting_def Let_def)

lemma currentSetting_frame [simp]:
  "currentSetting (s\<lparr>SETTINGS := a, saveCount := b, updateRequired := c\<rparr>) = currentSetting s"
  by (simp add: currentSetting_def Let_def)

lemma currentSetting_focus:
  "currentSetting s = Some d \<Longrightarrow> selectedSettingIndex s \<noteq> 0"
  by (auto simp: currentSetting_def Let_def split: if_splits)

subsection \<open>Confirm on a focused item\<close>

lemma loop_confirm_item:
  assumes "subActivity s = None" "confirmPressed inp" "selectedSettingIndex s \<noteq> 0"
  shows "loop inp s = (case toggleCurrentSetting s of
           Inl e \<Rightarrow> Inl e | Inr s1 \<Rightarrow> Inr (s1\<lparr>updateRequired := True\<rparr>))"
  using assms by (simp add: loop_def)

lemma loop_confirm_TOGGLE:
  assumes "subActivity s = None" "confirmPressed inp"
      and "currentSetting s = Some d" "type_s d = TOGGLE" "valuePtr d = Some p"
  shows "loop inp s = Inr (s\<lparr>SETTINGS := (SETTINGS s)(p := advanceToggle (SETTINGS s p)),
           saveCount := Suc (saveCount s), updateRequired := True\<rparr>)"
  using assms currentSetting_focus [OF assms(3)]
  by (simp add: loop_confirm_item toggle_TOGGLE [OF assms(3-5)] saveToFile_def setField_def)

lemma loop_confirm_ENUM:
  assumes "subActivity s = None" "confirmPressed inp"
      and "currentSetting s = Some d" "type_s d = ENUM" "valuePtr d = Some p"
      and "advanceEnum (length (enumValues d)) (SETTINGS s p) = Inr v"
  shows "loop inp s = Inr (s\<lparr>SETTINGS := (SETTINGS s)(p := v),
           saveCount := Suc (saveCount s), updateRequired := True\<rparr>)"
  using assms currentSetting_focus [OF assms(3)]
  by (simp add: loop_confirm_item toggle_ENUM [OF assms(3-5)] saveToFile_def setField_def)

lemma loop_confirm_VALUE:
  assumes "subActivity s = None" "confirmPressed inp"
      and "currentSetting s = Some d" "type_s d = VALUE" "valuePtr d = Some p"
  shows "loop inp s =
           Inr (s\<lparr>SETTINGS := (SETTINGS s)(p := advanceValue (valueRange d) (SETTINGS s p)),
                  saveCount := Suc (saveCount s), updateRequired := True\<rparr>)"
  using assms currentSetting_focus [OF assms(3)]
  by (simp add: loop_confirm_item toggle_VALUE [OF assms(3-5)] saveToFile_def setField_def)

subsection \<open>Concrete states\<close>

lemma activityAt_simps [simp]:
  "selectedCategoryIndex (activityAt c i) = c"
  "selectedSettingIndex (activityAt c i) = i"
  "settingsList (activityAt c i) = tableOf c"
  "settingsCount (activityAt c i) = tableCount c"
  "subActivity (activityAt c i) = None"
  "SETTINGS (activityAt c i) f = 0"
  "saveCount (activityAt c i) = 0"
  "goHomeCount (activityAt c i) = 0"
  "updateRequired (activityAt c i) = True"
  by (simp_all add: activityAt_def onEnter_def freshActivity_def)

lemma confirmInput_simps [simp]:
  "confirmPressed confirmInput" "\<not> backPressed confirmInput"
  "\<not> upReleased confirmInput" "\<not> downReleased confirmInput"
  "\<not> leftReleased confirmInput" "\<not> rightReleased confirmInput"
  "heldTime confirmInput = 0" "\<not> subFinished confirmInput"
  by (simp_all add: confirmInput_def noInput_def)

lemma table_lengths:
  "length displaySettings = 7" "length readerSettings = 9"
  "length controlsSettings = 4" "length systemSettings = 5"
  by (simp_all add: displaySettings_def readerSettings_def controlsSettings_def
        systemSettings_def)

lemma reader_current_4:
  "currentSetting (activityAt 1 4) =
     Some (Value ''Screen Margin'' screenMargin \<lparr>min_r = 5, max_r = 40, step_r = 5\<rparr>)"
  by (simp add: currentSetting_def tableOf_def tableCount_def readerSettings_def
        readerSettingsCount_def)

lemma reader_current_6:
  "currentSetting (activityAt 1 6) = Some (Toggle ''Hyphenation'' hyphenationEnabled)"
  by (simp add: currentSetting_def tableOf_def tableCount_def readerSettings_def
        readerSettingsCount_def)

lemma display_current_1:
  "currentSetting (activityAt 0 1) =
     Some (Enum ''Sleep Screen'' sleepScreen
       [''Dark'', ''Light'', ''Custom'', ''Cover'', ''None'', ''Cover + Custom''])"
  by (simp add: currentSetting_def tableOf_def tableCount_def displaySettings_def
        displaySettingsCount_def)

subsection \<open>Toggle descriptors\<close>

text \<open>
  Claim C8. For a Toggle descriptor whose bound field holds a boolean \<open>b\<close>, one
  confirmation on the focused item stores the negation of \<open>b\<close> (with one save and a
  pending redraw), and two confirmations in a row leave the store as it was.
\<close>

theorem toggle_confirm_negates:
  assumes "subActivity s = None" and "confirmPressed inp"
      and "currentSetting s = Some d" and "type_s d = TOGGLE" and "valuePtr d = Some p"
      and "SETTINGS s p = of_bool b"
  shows "loop inp s = Inr (s\<lparr>SETTINGS := (SETTINGS s)(p := of_bool (\<not> b)),
                              saveCount := Suc (saveCount s), updateRequired := True\<rparr>)
       \<and> runLoop [inp, inp] s = Inr (s\<lparr>saveCount := saveCount s + 2, updateRequired := True\<rparr>)"
proof -
  let ?s1 = "s\<lparr>SETTINGS := (SETTINGS s)(p := of_bool (\<not> b)),
                saveCount := Suc (saveCount s), updateRequired := True\<rparr>"
  have one: "loop inp s = Inr ?s1"
    using loop_confirm_TOGGLE [OF assms(1-5)] assms(6) by (simp add: advanceToggle_def)
  have "subActivity ?s1 = None" "currentSetting ?s1 = Some d"
    using assms(1,3) by simp_all
  then have "loop inp ?s1 =
      Inr (?s1\<lparr>SETTINGS := (SETTINGS ?s1)(p := advanceToggle (SETTINGS ?s1 p)),
             saveCount := Suc (saveCount ?s1), updateRequired := True\<rparr>)"
    using assms(2,4,5) by (intro loop_confirm_TOGGLE)
  moreover have "(SETTINGS s)(p := of_bool b) = SETTINGS s"
    using assms(6) by (metis fun_upd_triv)
  ultimately have two:
    "loop inp ?s1 = Inr (s\<lparr>saveCount := saveCount s + 2, updateRequired := True\<rparr>)"
    by (simp add: advanceToggle_def)
  show ?thesis using one two by simp
qed

theorem toggle_confirm_negates_witness:
  "subActivity (activityAt 1 6) = None \<and> confirmPressed confirmInput
   \<and> currentSetting (activityAt 1 6) = Some (Toggle ''Hyphenation'' hyphenationEnabled)
   \<and> type_s (Toggle ''Hyphenation'' hyphenationEnabled) = TOGGLE
   \<and> valuePtr (Toggle ''Hyphenation'' hyphenationEnabled) = Some hyphenationEnabled
   \<and> SETTINGS (activityAt 1 6) hyphenationEnabled = of_bool False
   \<and> loop confirmInput (activityAt 1 6) =
       Inr ((activityAt 1 6)\<lparr>SETTINGS := (SETTINGS (activityAt 1 6))(hyphenationEnabled := 1),
                              saveCount := 1, updateRequired := True\<rparr>)
   \<and> runLoop [confirmInput, confirmInput] (activityAt 1 6) =
       Inr ((activityAt 1 6)\<lparr>saveCount := 2, updateRequired := True\<rparr>)"
proof -
  have a: "subActivity (activityAt 1 6) = None" by simp
  have b: "confirmPressed confirmInput" by simp
  have c: "type_s (Toggle ''Hyphenation'' hyphenationEnabled) = TOGGLE"
          "valuePtr (Toggle ''Hyphenation'' hyphenationEnabled) = Some hyphenationEnabled"
    by (simp_all add: Toggle_def)
  have d: "SETTINGS (activityAt 1 6) hyphenationEnabled = of_bool False" by simp
  show ?thesis
    using toggle_confirm_negates [OF a b reader_current_6 c d] c reader_current_6
    by (simp del: runLoop.simps)
qed

subsection \<open>Enum descriptors\<close>

lemma advanceEnum_ok:
  assumes "1 \<le> k" "k \<le> 255"
  shows "advanceEnum k v = Inr (word_of_nat ((unat v + 1) mod k))"
  using assms by (simp add: advanceEnum_def Let_def unat_of_nat)

lemma advanceEnum_unat:
  assumes "1 \<le> k" "k \<le> 255" "advanceEnum k v = Inr w"
  shows "unat w = (unat v + 1) mod k"
proof -
  have "(unat v + 1) mod k < k" using assms by simp
  then have "(unat v + 1) mod k < 256" using assms by linarith
  then show ?thesis using assms by (auto simp add: advanceEnum_ok unat_of_nat)
qed

lemma enum_confirm_n:
  assumes "confirmPressed inp" "type_s d = ENUM" "valuePtr d = Some p"
      and "1 \<le> length (enumValues d)" "length (enumValues d) \<le> 255"
  shows "subActivity s = None \<Longrightarrow> currentSetting s = Some d \<Longrightarrow>
         unat (SETTINGS s p) < length (enumValues d) \<Longrightarrow>
         runLoop (replicate n inp) s =
           Inr (s\<lparr>SETTINGS := (SETTINGS s)
                    (p := word_of_nat ((unat (SETTINGS s p) + n) mod length (enumValues d))),
                  saveCount := saveCount s + n,
                  updateRequired := (updateRequired s \<or> 0 < n)\<rparr>)"
proof (induction n arbitrary: s)
  case 0
  then show ?case by simp
next
  case (Suc n)
  let ?k = "length (enumValues d)"
  let ?w = "word_of_nat ((unat (SETTINGS s p) + 1) mod ?k) :: 8 word"
  let ?s1 = "s\<lparr>SETTINGS := (SETTINGS s)(p := ?w),
           saveCount := Suc (saveCount s), updateRequired := True\<rparr>"
  have adv: "advanceEnum ?k (SETTINGS s p) = Inr ?w"
    using assms(4,5) by (rule advanceEnum_ok)
  have w: "unat ?w = (unat (SETTINGS s p) + 1) mod ?k"
    using assms(4,5) adv by (rule advanceEnum_unat)
  have step: "loop inp s = Inr ?s1"
    using Suc.prems(1) assms(1) Suc.prems(2) assms(2,3) adv by (rule loop_confirm_ENUM)
  have kpos: "0 < ?k" using assms(4) by linarith
  have "unat (SETTINGS ?s1 p) < ?k" using w kpos by simp
  moreover have "subActivity ?s1 = None" using Suc.prems(1) by simp
  moreover have "currentSetting ?s1 = Some d" using Suc.prems(2) by simp
  ultimately have ih: "runLoop (replicate n inp) ?s1 =
           Inr (?s1\<lparr>SETTINGS := (SETTINGS ?s1)
                    (p := word_of_nat ((unat (SETTINGS ?s1 p) + n) mod ?k)),
                  saveCount := saveCount ?s1 + n,
                  updateRequired := (updateRequired ?s1 \<or> 0 < n)\<rparr>)"
    using Suc.IH by blast
  have eq: "(unat (SETTINGS ?s1 p) + n) mod ?k = (unat (SETTINGS s p) + Suc n) mod ?k"
    using w by (simp add: mod_add_left_eq mod_Suc_eq)
  have "runLoop (replicate n inp) ?s1 =
           Inr (?s1\<lparr>SETTINGS := (SETTINGS ?s1)
                    (p := word_of_nat ((unat (SETTINGS s p) + Suc n) mod ?k)),
                  saveCount := saveCount ?s1 + n,
                  updateRequired := (updateRequired ?s1 \<or> 0 < n)\<rparr>)"
    using ih by (simp only: eq)
  then show ?case using step by simp (simp add: fun_upd_def)
qed

text \<open>
  Claim C7, as amended. For an Enum descriptor with \<open>k\<close> labels, \<open>1 \<le> k \<le> 255\<close>, and a
  bound value \<open>v < k\<close>, one confirmation on the focused item stores \<open>(v + 1) mod k\<close>,
  which is again below \<open>k\<close>, and \<open>k\<close> confirmations in a row leave the store as it was
  (with \<open>k\<close> saves). The bound \<open>k \<le> 255\<close> is needed: the code reduces the number of
  labels to eight bits before taking the remainder.
\<close>

theorem enum_confirm_cycles:
  assumes "subActivity s = None" and "confirmPressed inp"
      and "currentSetting s = Some d" and "type_s d = ENUM" and "valuePtr d = Some p"
      and "k = length (enumValues d)" and "1 \<le> k" and "k \<le> 255"
      and "v = unat (SETTINGS s p)" and "v < k"
  shows "(\<exists>w. loop inp s = Inr (s\<lparr>SETTINGS := (SETTINGS s)(p := w),
                                  saveCount := Suc (saveCount s), updateRequired := True\<rparr>)
             \<and> unat w = (v + 1) mod k \<and> unat w < k)
       \<and> runLoop (replicate k inp) s =
             Inr (s\<lparr>saveCount := saveCount s + k, updateRequired := True\<rparr>)"
proof
  let ?w = "word_of_nat ((v + 1) mod k) :: 8 word"
  have adv: "advanceEnum (length (enumValues d)) (SETTINGS s p) = Inr ?w"
    using assms(6-9) by (simp add: advanceEnum_ok)
  have "unat ?w = (v + 1) mod k"
    using advanceEnum_unat [of k "SETTINGS s p" ?w] adv assms(6-9) by simp
  moreover have "(v + 1) mod k < k" using assms(7) by simp
  ultimately show "\<exists>w. loop inp s = Inr (s\<lparr>SETTINGS := (SETTINGS s)(p := w),
                                  saveCount := Suc (saveCount s), updateRequired := True\<rparr>)
             \<and> unat w = (v + 1) mod k \<and> unat w < k"
    using loop_confirm_ENUM [OF assms(1-5) adv] by auto
  have "runLoop (replicate k inp) s =
           Inr (s\<lparr>SETTINGS := (SETTINGS s)(p := word_of_nat ((v + k) mod k)),
                  saveCount := saveCount s + k,
                  updateRequired := (updateRequired s \<or> 0 < k)\<rparr>)"
    using enum_confirm_n [of inp d p s k] assms by simp
  moreover have "(word_of_nat ((v + k) mod k) :: 8 word) = SETTINGS s p"
    using assms(9,10) by simp
  ultimately show "runLoop (replicate k inp) s =
      Inr (s\<lparr>saveCount := saveCount s + k, updateRequired := True\<rparr>)"
    using assms(7) by simp
qed

theorem enum_confirm_cycles_witness:
  "subActivity (activityAt 0 1) = None \<and> confirmPressed confirmInput
   \<and> currentSetting (activityAt 0 1) =
       Some (Enum ''Sleep Screen'' sleepScreen
         [''Dark'', ''Light'', ''Custom'', ''Cover'', ''None'', ''Cover + Custom''])
   \<and> (1::nat) \<le> 6 \<and> (6::nat) \<le> 255 \<and> unat (SETTINGS (activityAt 0 1) sleepScreen) < 6
   \<and> (\<exists>w. loop confirmInput (activityAt 0 1) =
            Inr ((activityAt 0 1)\<lparr>SETTINGS := (SETTINGS (activityAt 0 1))(sleepScreen := w),
                                   saveCount := 1, updateRequired := True\<rparr>)
          \<and> unat w = 1)
   \<and> runLoop (replicate 6 confirmInput) (activityAt 0 1) =
       Inr ((activityAt 0 1)\<lparr>saveCount := 6, updateRequired := True\<rparr>)"
proof -
  let ?d = "Enum ''Sleep Screen'' sleepScreen
         [''Dark'', ''Light'', ''Custom'', ''Cover'', ''None'', ''Cover + Custom'']"
  have a: "subActivity (activityAt 0 1) = None" by simp
  have b: "confirmPressed confirmInput" by simp
  have c: "type_s ?d = ENUM" "valuePtr ?d = Some sleepScreen" "6 = length (enumValues ?d)"
    by (simp_all add: Enum_def)
  have e: "(1::nat) \<le> 6" "(6::nat) \<le> 255" by simp_all
  have f: "0 = unat (SETTINGS (activityAt 0 1) sleepScreen)" "(0::nat) < 6" by simp_all
  show ?thesis
    using enum_confirm_cycles [OF a b display_current_1 c e f] display_current_1
    by (simp del: runLoop.simps replicate.simps) blast
qed

text \<open>
  With 300 labels and the bound value 43 the code stores 0, since 300 is 44 in eight
  bits, and not \<open>(43 + 1) mod 300 = 44\<close>.
\<close>

theorem enum_many_labels_counterexample:
  "advanceEnum 300 43 = Inr 0 \<and> (43 + 1) mod 300 = (44::nat) \<and> (43::nat) < 300"
  by (simp add: advanceEnum_def Let_def unat_of_nat)

subsection \<open>Value descriptors\<close>

lemma sint8_of_int: "- 128 \<le> x \<Longrightarrow> x \<le> 127 \<Longrightarrow> sint (word_of_int x :: 8 word) = x"
  by (simp add: int_word_sint)

lemma advanceValue_sint:
  assumes "- 128 \<le> min_r r" "max_r r \<le> 127" "0 \<le> step_r r"
      and "min_r r \<le> sint v" "sint v \<le> max_r r"
  shows "sint (advanceValue r v) =
           (if sint v + step_r r > max_r r then min_r r else sint v + step_r r)"
proof (cases "sint v + step_r r > max_r r")
  case True
  then show ?thesis
    using assms sint8_of_int [of "min_r r"] by (simp add: advanceValue_def Let_def)
next
  case False
  then show ?thesis
    using assms sint8_of_int [of "sint v + step_r r"] by (simp add: advanceValue_def Let_def)
qed

lemma advanceValue_range:
  assumes "- 128 \<le> min_r r" "max_r r \<le> 127" "0 \<le> step_r r"
      and "min_r r \<le> sint v" "sint v \<le> max_r r"
  shows "min_r r \<le> sint (advanceValue r v) \<and> sint (advanceValue r v) \<le> max_r r"
  using assms by (simp add: advanceValue_sint)

lemma advanceValue_funpow_range:
  assumes "- 128 \<le> min_r r" "max_r r \<le> 127" "0 \<le> step_r r"
      and "min_r r \<le> sint v" "sint v \<le> max_r r"
  shows "min_r r \<le> sint ((advanceValue r ^^ n) v) \<and> sint ((advanceValue r ^^ n) v) \<le> max_r r"
proof (induction n)
  case 0
  show ?case using assms by simp
next
  case (Suc n)
  then show ?case
    using assms(1-3) advanceValue_range [of r "(advanceValue r ^^ n) v"] by simp
qed

lemma advanceValue_wraps:
  assumes "- 128 \<le> min_r r" "max_r r \<le> 127" "1 \<le> step_r r"
      and "min_r r \<le> sint v" "sint v \<le> max_r r"
  shows "\<exists>n\<ge>1. sint ((advanceValue r ^^ n) v) = min_r r"
  using assms(4,5)
proof (induction "nat (max_r r - sint v)" arbitrary: v rule: less_induct)
  case less
  show ?case
  proof (cases "sint v + step_r r > max_r r")
    case True
    then have "sint (advanceValue r v) = min_r r"
      using assms(1-3) less.prems by (simp add: advanceValue_sint)
    then have "sint ((advanceValue r ^^ 1) v) = min_r r" by simp
    then show ?thesis by blast
  next
    case False
    let ?w = "advanceValue r v"
    have w: "sint ?w = sint v + step_r r"
      using False assms(1-3) less.prems by (simp add: advanceValue_sint)
    have "nat (max_r r - sint ?w) < nat (max_r r - sint v)"
      using w False assms(3) by linarith
    moreover have "min_r r \<le> sint ?w" "sint ?w \<le> max_r r"
      using w False assms(3) less.prems by linarith+
    ultimately obtain n where n: "n \<ge> 1" "sint ((advanceValue r ^^ n) ?w) = min_r r"
      using less.hyps by blast
    have "sint ((advanceValue r ^^ Suc n) v) = min_r r"
      using n(2) by (simp add: funpow_swap1)
    then show ?thesis by (metis le_SucI n(1))
  qed
qed

lemma value_confirm_n:
  assumes "confirmPressed inp" "type_s d = VALUE" "valuePtr d = Some p"
  shows "subActivity s = None \<Longrightarrow> currentSetting s = Some d \<Longrightarrow>
         runLoop (replicate n inp) s =
           Inr (s\<lparr>SETTINGS := (SETTINGS s)
                    (p := (advanceValue (valueRange d) ^^ n) (SETTINGS s p)),
                  saveCount := saveCount s + n,
                  updateRequired := (updateRequired s \<or> 0 < n)\<rparr>)"
proof (induction n arbitrary: s)
  case 0
  then show ?case by simp
next
  case (Suc n)
  let ?f = "advanceValue (valueRange d)"
  let ?s1 = "s\<lparr>SETTINGS := (SETTINGS s)(p := ?f (SETTINGS s p)),
           saveCount := Suc (saveCount s), updateRequired := True\<rparr>"
  have step: "loop inp s = Inr ?s1"
    using Suc.prems(1) assms(1) Suc.prems(2) assms(2,3) by (rule loop_confirm_VALUE)
  have "subActivity ?s1 = None" using Suc.prems(1) by simp
  moreover have "currentSetting ?s1 = Some d" using Suc.prems(2) by simp
  ultimately have ih: "runLoop (replicate n inp) ?s1 =
           Inr (?s1\<lparr>SETTINGS := (SETTINGS ?s1)(p := (?f ^^ n) (SETTINGS ?s1 p)),
                  saveCount := saveCount ?s1 + n,
                  updateRequired := (updateRequired ?s1 \<or> 0 < n)\<rparr>)"
    using Suc.IH by blast
  have eq: "(?f ^^ n) (SETTINGS ?s1 p) = (?f ^^ Suc n) (SETTINGS s p)"
    by (simp add: funpow_swap1)
  have "runLoop (replicate n inp) ?s1 =
           Inr (?s1\<lparr>SETTINGS := (SETTINGS ?s1)(p := (?f ^^ Suc n) (SETTINGS s p)),
                  saveCount := saveCount ?s1 + n,
                  updateRequired := (updateRequired ?s1 \<or> 0 < n)\<rparr>)"
    using ih by (simp only: eq)
  then show ?case
    using step by (simp del: funpow.simps) (simp add: fun_upd_def del: funpow.simps)
qed

text \<open>
  Claim C6, as amended. For a Value descriptor whose range has \<open>step \<ge> 1\<close> and bounds
  that the signed byte read at line 198 can hold, and a bound value \<open>v\<close> with
  \<open>min \<le> v \<le> max\<close>: one confirmation on the focused item stores \<open>min\<close> if
  \<open>v + step > max\<close> and \<open>v + step\<close> otherwise; after any number of confirmations the
  value is within \<open>[min, max]\<close>; and some number of confirmations, at least one, brings it
  to exactly \<open>min\<close>.
\<close>

theorem value_confirm_sawtooth:
  assumes "subActivity s = None" and "confirmPressed inp"
      and "currentSetting s = Some d" and "type_s d = VALUE" and "valuePtr d = Some p"
      and "r = valueRange d" and "- 128 \<le> min_r r" and "max_r r \<le> 127" and "1 \<le> step_r r"
      and "v = sint (SETTINGS s p)" and "min_r r \<le> v" and "v \<le> max_r r"
  shows "(\<exists>s1. loop inp s = Inr s1
            \<and> s1 = s\<lparr>SETTINGS := (SETTINGS s)(p := SETTINGS s1 p),
                       saveCount := Suc (saveCount s), updateRequired := True\<rparr>
            \<and> sint (SETTINGS s1 p) = (if v + step_r r > max_r r then min_r r else v + step_r r))
       \<and> (\<forall>n. \<exists>sn. runLoop (replicate n inp) s = Inr sn
            \<and> min_r r \<le> sint (SETTINGS sn p) \<and> sint (SETTINGS sn p) \<le> max_r r)
       \<and> (\<exists>n\<ge>1. \<exists>sn. runLoop (replicate n inp) s = Inr sn \<and> sint (SETTINGS sn p) = min_r r)"
proof (intro conjI)
  have st: "0 \<le> step_r r" using assms(9) by simp
  have run: "runLoop (replicate n inp) s =
           Inr (s\<lparr>SETTINGS := (SETTINGS s)(p := (advanceValue r ^^ n) (SETTINGS s p)),
                  saveCount := saveCount s + n,
                  updateRequired := (updateRequired s \<or> 0 < n)\<rparr>)" for n
    using value_confirm_n [OF assms(2,4,5,1,3)] assms(6) by simp
  show "\<exists>s1. loop inp s = Inr s1
            \<and> s1 = s\<lparr>SETTINGS := (SETTINGS s)(p := SETTINGS s1 p),
                       saveCount := Suc (saveCount s), updateRequired := True\<rparr>
            \<and> sint (SETTINGS s1 p) = (if v + step_r r > max_r r then min_r r else v + step_r r)"
    using loop_confirm_VALUE [OF assms(1-5)] assms(6,10-12)
          advanceValue_sint [OF assms(7,8) st, of "SETTINGS s p"]
    by simp
  show "\<forall>n. \<exists>sn. runLoop (replicate n inp) s = Inr sn
            \<and> min_r r \<le> sint (SETTINGS sn p) \<and> sint (SETTINGS sn p) \<le> max_r r"
    using run advanceValue_funpow_range [OF assms(7,8) st, of "SETTINGS s p"] assms(10-12)
    by simp
  show "\<exists>n\<ge>1. \<exists>sn. runLoop (replicate n inp) s = Inr sn \<and> sint (SETTINGS sn p) = min_r r"
    using run advanceValue_wraps [OF assms(7-9), of "SETTINGS s p"] assms(10-12)
    by simp
qed

lemma currentSetting_setField [simp]: "currentSetting (setField f v s) = currentSetting s"
  by (simp add: currentSetting_def setField_def Let_def)

text \<open>The scenario of the spec: Screen Margin (5 to 40 by 5) at 40 becomes 5.\<close>

theorem value_confirm_sawtooth_witness:
  "subActivity (setField screenMargin 40 (activityAt 1 4)) = None
   \<and> confirmPressed confirmInput
   \<and> currentSetting (setField screenMargin 40 (activityAt 1 4)) =
       Some (Value ''Screen Margin'' screenMargin \<lparr>min_r = 5, max_r = 40, step_r = 5\<rparr>)
   \<and> sint (SETTINGS (setField screenMargin 40 (activityAt 1 4)) screenMargin) = 40
   \<and> (\<exists>s1. loop confirmInput (setField screenMargin 40 (activityAt 1 4)) = Inr s1
          \<and> sint (SETTINGS s1 screenMargin) = 5)"
proof -
  let ?s = "setField screenMargin 40 (activityAt 1 4)"
  let ?r = "\<lparr>min_r = 5, max_r = 40, step_r = 5\<rparr>"
  let ?d = "Value ''Screen Margin'' screenMargin ?r"
  have a: "subActivity ?s = None" by (simp add: setField_def)
  have b: "confirmPressed confirmInput" by simp
  have c: "currentSetting ?s = Some ?d"
    using reader_current_4 by simp
  have d: "type_s ?d = VALUE" "valuePtr ?d = Some screenMargin" "?r = valueRange ?d"
    by (simp_all add: Value_def)
  have e: "- 128 \<le> min_r ?r" "max_r ?r \<le> 127" "1 \<le> step_r ?r" by simp_all
  have f: "40 = sint (SETTINGS ?s screenMargin)" by (simp add: setField_def)
  have g: "min_r ?r \<le> 40" "40 \<le> max_r ?r" by simp_all
  have "\<exists>s1. loop confirmInput ?s = Inr s1 \<and> sint (SETTINGS s1 screenMargin) = 5"
    using value_confirm_sawtooth [OF a b c d e f g] by auto
  then show ?thesis using a b c f by simp
qed

lemma funpow_fixed: "f x = x \<Longrightarrow> (f ^^ n) x = x"
  by (induction n) simp_all

text \<open>
  With a step of 0 the value never moves: from 10 in the range 5 to 40 no number of
  confirmations reaches 5.
\<close>

theorem value_zero_step_counterexample:
  "advanceValue \<lparr>min_r = 5, max_r = 40, step_r = 0\<rparr> 10 = 10
   \<and> (\<forall>n. (advanceValue \<lparr>min_r = 5, max_r = 40, step_r = 0\<rparr> ^^ n) 10 = 10)
   \<and> 5 \<le> sint (10 :: 8 word) \<and> sint (10 :: 8 word) \<le> 40 \<and> sint (10 :: 8 word) \<noteq> 5"
proof -
  have fx: "advanceValue \<lparr>min_r = 5, max_r = 40, step_r = 0\<rparr> 10 = 10"
    by (simp add: advanceValue_def Let_def)
  show ?thesis
    using fx funpow_fixed [of "advanceValue \<lparr>min_r = 5, max_r = 40, step_r = 0\<rparr>" 10]
    by simp
qed

subsection \<open>Directional navigation\<close>

lemma loop_navigation:
  assumes "subActivity s = None" "\<not> confirmPressed inp" "\<not> backPressed inp"
  shows "loop inp s =
           Inr (if fst (handleNavigation inp (False, s))
                then rebindCategory (snd (handleNavigation inp (False, s)))
                else snd (handleNavigation inp (False, s)))"
  using assms by (simp add: loop_def Let_def)

lemma ring_decrement:
  fixes i N :: int
  assumes "0 \<le> i" "i \<le> N"
  shows "(if i > 0 then i - 1 else N) = (i - 1) mod (N + 1)"
proof (cases "i = 0")
  case True
  have "(- 1) mod (N + 1) = N" using assms by (simp add: zmod_minus1)
  then show ?thesis using True by simp
next
  case False
  then show ?thesis using assms by simp
qed

lemma ring_increment:
  fixes i N :: int
  assumes "0 \<le> i" "i \<le> N"
  shows "(if i < N then i + 1 else 0) = (i + 1) mod (N + 1)"
  using assms by simp

lemma loop_plain:
  assumes "subActivity s = None" "plainDirectional inp"
      and "0 \<le> selectedSettingIndex s" "selectedSettingIndex s \<le> settingsCount s"
  shows "loop inp s =
     Inr (if upReleased inp \<or> leftReleased inp then
            s\<lparr>selectedSettingIndex := (selectedSettingIndex s - 1) mod (settingsCount s + 1),
              updateRequired := True\<rparr>
          else if rightReleased inp \<or> downReleased inp then
            s\<lparr>selectedSettingIndex := (selectedSettingIndex s + 1) mod (settingsCount s + 1),
              updateRequired := True\<rparr>
          else s)"
proof -
  have np: "\<not> confirmPressed inp" "\<not> backPressed inp"
    and ng: "\<not> (upReleased inp \<and> heldTime inp > changeTabsMs)"
            "\<not> (downReleased inp \<and> heldTime inp > changeTabsMs)"
    using assms(2) by (auto simp: plainDirectional_def)
  have dec: "(if selectedSettingIndex s > 0 then selectedSettingIndex s - 1 else settingsCount s)
              = (selectedSettingIndex s - 1) mod (settingsCount s + 1)"
    using assms(3,4) by (rule ring_decrement)
  have inc: "(if selectedSettingIndex s < settingsCount s then selectedSettingIndex s + 1 else 0)
              = (selectedSettingIndex s + 1) mod (settingsCount s + 1)"
    using assms(3,4) by (rule ring_increment)
  have "handleNavigation inp (False, s) =
     (False, if upReleased inp \<or> leftReleased inp then
            s\<lparr>selectedSettingIndex := (selectedSettingIndex s - 1) mod (settingsCount s + 1),
              updateRequired := True\<rparr>
          else if rightReleased inp \<or> downReleased inp then
            s\<lparr>selectedSettingIndex := (selectedSettingIndex s + 1) mod (settingsCount s + 1),
              updateRequired := True\<rparr>
          else s)"
    using ng unfolding handleNavigation_def Let_def fst_conv snd_conv dec inc by auto
  then show ?thesis using loop_navigation [OF assms(1) np] by simp
qed

lemma loop_plain_frame:
  assumes "subActivity s = None" "plainDirectional inp"
      and "0 \<le> selectedSettingIndex s" "selectedSettingIndex s \<le> settingsCount s"
  shows "\<exists>s'. loop inp s = Inr s'
           \<and> 0 \<le> selectedSettingIndex s' \<and> selectedSettingIndex s' \<le> settingsCount s
           \<and> settingsCount s' = settingsCount s \<and> settingsList s' = settingsList s
           \<and> selectedCategoryIndex s' = selectedCategoryIndex s
           \<and> SETTINGS s' = SETTINGS s \<and> subActivity s' = None"
proof -
  have m: "0 < settingsCount s + 1" using assms(3,4) by linarith
  have b: "0 \<le> x mod (settingsCount s + 1) \<and> x mod (settingsCount s + 1) < settingsCount s + 1"
    for x using m pos_mod_sign [of "settingsCount s + 1" x] pos_mod_bound [of "settingsCount s + 1" x]
    by blast
  have "0 \<le> (selectedSettingIndex s - 1) mod (settingsCount s + 1)"
       "(selectedSettingIndex s - 1) mod (settingsCount s + 1) \<le> settingsCount s"
       "0 \<le> (selectedSettingIndex s + 1) mod (settingsCount s + 1)"
       "(selectedSettingIndex s + 1) mod (settingsCount s + 1) \<le> settingsCount s"
    using b [of "selectedSettingIndex s - 1"] b [of "selectedSettingIndex s + 1"]
    by linarith+
  then show ?thesis using loop_plain [OF assms] assms(1,3,4) by simp
qed

lemma runLoop_plain_frame:
  assumes "list_all plainDirectional inps"
  shows "subActivity s = None \<Longrightarrow> 0 \<le> selectedSettingIndex s \<Longrightarrow>
         selectedSettingIndex s \<le> settingsCount s \<Longrightarrow>
         \<exists>s'. runLoop inps s = Inr s'
           \<and> 0 \<le> selectedSettingIndex s' \<and> selectedSettingIndex s' \<le> settingsCount s
           \<and> settingsCount s' = settingsCount s \<and> settingsList s' = settingsList s
           \<and> selectedCategoryIndex s' = selectedCategoryIndex s
           \<and> SETTINGS s' = SETTINGS s \<and> subActivity s' = None"
  using assms
proof (induction inps arbitrary: s)
  case Nil
  then show ?case by simp
next
  case (Cons inp inps)
  have pd: "plainDirectional inp" and rest: "list_all plainDirectional inps"
    using Cons.prems(4) by simp_all
  obtain s1 where s1: "loop inp s = Inr s1"
      "0 \<le> selectedSettingIndex s1" "selectedSettingIndex s1 \<le> settingsCount s"
      "settingsCount s1 = settingsCount s" "settingsList s1 = settingsList s"
      "selectedCategoryIndex s1 = selectedCategoryIndex s"
      "SETTINGS s1 = SETTINGS s" "subActivity s1 = None"
    using loop_plain_frame [OF Cons.prems(1) pd Cons.prems(2,3)] by blast
  obtain s' where s': "runLoop inps s1 = Inr s'"
      "0 \<le> selectedSettingIndex s'" "selectedSettingIndex s' \<le> settingsCount s1"
      "settingsCount s' = settingsCount s1" "settingsList s' = settingsList s1"
      "selectedCategoryIndex s' = selectedCategoryIndex s1"
      "SETTINGS s' = SETTINGS s1" "subActivity s' = None"
    using Cons.IH [of s1] s1 rest by auto
  show ?case using s1 s' by simp
qed

text \<open>
  Claim C3. On a list of \<open>N\<close> settings with the focus in \<open>[0, N]\<close>, a cycle without
  Confirm, Back or the held gesture moves the focus on a ring of size \<open>N + 1\<close>: a release
  of Up or Left takes it to \<open>(i - 1) mod (N + 1)\<close>, so from 0 to \<open>N\<close>; otherwise a release
  of Down or Right takes it to \<open>(i + 1) mod (N + 1)\<close>, so from \<open>N\<close> to 0. After any
  sequence of such cycles the focus is still in \<open>[0, N]\<close> and the category and its list
  are the same; with \<open>N = 0\<close> the focus stays on the tab row.
\<close>

theorem directional_ring:
  assumes "subActivity s = None" and "N = settingsCount s"
      and "0 \<le> selectedSettingIndex s" and "selectedSettingIndex s \<le> N"
  shows "(plainDirectional inp \<longrightarrow>
            loop inp s =
              Inr (if upReleased inp \<or> leftReleased inp then
                     s\<lparr>selectedSettingIndex := (selectedSettingIndex s - 1) mod (N + 1),
                       updateRequired := True\<rparr>
                   else if rightReleased inp \<or> downReleased inp then
                     s\<lparr>selectedSettingIndex := (selectedSettingIndex s + 1) mod (N + 1),
                       updateRequired := True\<rparr>
                   else s))
       \<and> (list_all plainDirectional inps \<longrightarrow>
            (\<exists>s'. runLoop inps s = Inr s'
               \<and> 0 \<le> selectedSettingIndex s' \<and> selectedSettingIndex s' \<le> N
               \<and> settingsCount s' = N \<and> settingsList s' = settingsList s
               \<and> selectedCategoryIndex s' = selectedCategoryIndex s
               \<and> (N = 0 \<longrightarrow> selectedSettingIndex s' = 0)))
       \<and> (0 - 1) mod (N + 1) = N \<and> (N + 1) mod (N + 1) = 0"
proof (intro conjI impI)
  assume "plainDirectional inp"
  then show "loop inp s =
              Inr (if upReleased inp \<or> leftReleased inp then
                     s\<lparr>selectedSettingIndex := (selectedSettingIndex s - 1) mod (N + 1),
                       updateRequired := True\<rparr>
                   else if rightReleased inp \<or> downReleased inp then
                     s\<lparr>selectedSettingIndex := (selectedSettingIndex s + 1) mod (N + 1),
                       updateRequired := True\<rparr>
                   else s)"
    using loop_plain [of s inp] assms by simp
next
  assume "list_all plainDirectional inps"
  then obtain s' where s': "runLoop inps s = Inr s'"
      "0 \<le> selectedSettingIndex s'" "selectedSettingIndex s' \<le> settingsCount s"
      "settingsCount s' = settingsCount s" "settingsList s' = settingsList s"
      "selectedCategoryIndex s' = selectedCategoryIndex s"
    using runLoop_plain_frame [of inps s] assms by auto
  then show "\<exists>s'. runLoop inps s = Inr s'
               \<and> 0 \<le> selectedSettingIndex s' \<and> selectedSettingIndex s' \<le> N
               \<and> settingsCount s' = N \<and> settingsList s' = settingsList s
               \<and> selectedCategoryIndex s' = selectedCategoryIndex s
               \<and> (N = 0 \<longrightarrow> selectedSettingIndex s' = 0)"
    using assms(2) by auto
next
  have "0 \<le> N" using assms(3,4) by linarith
  then show "(0 - 1) mod (N + 1) = N" by (simp add: zmod_minus1)
next
  show "(N + 1) mod (N + 1) = 0" by simp
qed

theorem directional_ring_witness:
  "subActivity (activityAt 2 0) = None \<and> 4 = settingsCount (activityAt 2 0)
   \<and> 0 \<le> selectedSettingIndex (activityAt 2 0) \<and> selectedSettingIndex (activityAt 2 0) \<le> 4
   \<and> plainDirectional (noInput\<lparr>upReleased := True\<rparr>)
   \<and> list_all plainDirectional
        [noInput\<lparr>upReleased := True\<rparr>, noInput\<lparr>rightReleased := True, heldTime := 900\<rparr>]
   \<and> loop (noInput\<lparr>upReleased := True\<rparr>) (activityAt 2 0) =
        Inr ((activityAt 2 0)\<lparr>selectedSettingIndex := 4, updateRequired := True\<rparr>)
   \<and> (\<exists>s'. runLoop
              [noInput\<lparr>upReleased := True\<rparr>, noInput\<lparr>rightReleased := True, heldTime := 900\<rparr>]
              (activityAt 2 0) = Inr s'
          \<and> 0 \<le> selectedSettingIndex s' \<and> selectedSettingIndex s' \<le> 4
          \<and> settingsList s' = controlsSettings \<and> selectedCategoryIndex s' = 2)"
proof -
  have a: "subActivity (activityAt 2 0) = None" by simp
  have b: "4 = settingsCount (activityAt 2 0)"
    by (simp add: tableCount_def controlsSettingsCount_def)
  have c: "0 \<le> selectedSettingIndex (activityAt 2 0)" "selectedSettingIndex (activityAt 2 0) \<le> 4"
    by simp_all
  have d: "plainDirectional (noInput\<lparr>upReleased := True\<rparr>)"
          "list_all plainDirectional
            [noInput\<lparr>upReleased := True\<rparr>, noInput\<lparr>rightReleased := True, heldTime := 900\<rparr>]"
    by (simp_all add: plainDirectional_def noInput_def changeTabsMs_def)
  have e: "upReleased (noInput\<lparr>upReleased := True\<rparr>)" by simp
  have f: "tableOf 2 = controlsSettings" by (simp add: tableOf_def)
  show ?thesis
    using directional_ring [OF a b c, of "noInput\<lparr>upReleased := True\<rparr>"
        "[noInput\<lparr>upReleased := True\<rparr>, noInput\<lparr>rightReleased := True, heldTime := 900\<rparr>]"]
      a b c d e f
    by (simp del: runLoop.simps) blast
qed

subsection \<open>The held gesture\<close>

lemma next_mod: "0 \<le> c \<Longrightarrow> c \<le> 3 \<Longrightarrow> nextCategory c = (c + 1) mod 4"
  by (simp add: nextCategory_def categoryCount_def)

lemma prev_mod: "0 \<le> c \<Longrightarrow> c \<le> 3 \<Longrightarrow> prevCategory c = (c - 1) mod 4"
proof (cases "c = 0")
  case True
  then show ?thesis by (simp add: prevCategory_def categoryCount_def)
next
  case False
  assume "0 \<le> c" "c \<le> 3"
  then show ?thesis using False by (simp add: prevCategory_def categoryCount_def)
qed

lemma category_mod_range:
  fixes c :: int
  shows "0 \<le> c mod 4 \<and> c mod 4 \<le> 3"
  using pos_mod_sign [of 4 c] pos_mod_bound [of 4 c] by simp

lemma rebindCategory_bound:
  assumes "0 \<le> selectedCategoryIndex s" "selectedCategoryIndex s \<le> 3"
  shows "rebindCategory s =
           s\<lparr>selectedSettingIndex := (if selectedSettingIndex s = 0 then 0 else 1),
             settingsList := tableOf (selectedCategoryIndex s),
             settingsCount := tableCount (selectedCategoryIndex s)\<rparr>"
proof -
  have "selectedCategoryIndex s = 0 \<or> selectedCategoryIndex s = 1
      \<or> selectedCategoryIndex s = 2 \<or> selectedCategoryIndex s = 3"
    using assms by linarith
  then show ?thesis
    by (auto simp: rebindCategory_def Let_def tableOf_def tableCount_def)
qed

text \<open>
  Claim C5. In a cycle without Confirm or Back, when Up or Down is released with a held
  time above 700 ms, the category moves on the ring of four (Up backwards, and Down
  forwards when Up is not released as well), the list and the count are those of the new
  category, the focus becomes 0 if it was on the tab row and 1 otherwise, and the focus
  is not moved as a plain release would move it.
\<close>

theorem held_gesture_changes_category:
  assumes "subActivity s = None" and "\<not> confirmPressed inp" and "\<not> backPressed inp"
      and "heldTime inp > 700" and "upReleased inp \<or> downReleased inp"
      and "c = selectedCategoryIndex s" and "0 \<le> c" and "c \<le> 3"
      and "c' = (if upReleased inp then (c - 1) mod 4 else (c + 1) mod 4)"
  shows "loop inp s =
           Inr (s\<lparr>selectedCategoryIndex := c',
                  selectedSettingIndex := (if selectedSettingIndex s = 0 then 0 else 1),
                  settingsList := tableOf c', settingsCount := tableCount c',
                  updateRequired := True\<rparr>)"
proof -
  have ct: "heldTime inp > changeTabsMs" using assms(4) by (simp add: changeTabsMs_def)
  have nav: "handleNavigation inp (False, s) =
      (True, s\<lparr>selectedCategoryIndex := c', updateRequired := True\<rparr>)"
    using ct assms(5-9) by (auto simp: handleNavigation_def Let_def next_mod prev_mod)
  have rng: "0 \<le> c'" "c' \<le> 3"
    using assms(9) category_mod_range [of "c - 1"] category_mod_range [of "c + 1"]
    by (simp_all split: if_splits)
  have "rebindCategory (s\<lparr>selectedCategoryIndex := c', updateRequired := True\<rparr>) =
          s\<lparr>selectedCategoryIndex := c',
                  selectedSettingIndex := (if selectedSettingIndex s = 0 then 0 else 1),
                  settingsList := tableOf c', settingsCount := tableCount c',
                  updateRequired := True\<rparr>"
    using rng by (simp add: rebindCategory_bound)
  then show ?thesis using loop_navigation [OF assms(1-3)] nav by simp
qed

theorem held_gesture_changes_category_witness:
  "subActivity (activityAt 0 2) = None
   \<and> \<not> confirmPressed (noInput\<lparr>upReleased := True, heldTime := 701\<rparr>)
   \<and> \<not> backPressed (noInput\<lparr>upReleased := True, heldTime := 701\<rparr>)
   \<and> heldTime (noInput\<lparr>upReleased := True, heldTime := 701\<rparr>) > 700
   \<and> upReleased (noInput\<lparr>upReleased := True, heldTime := 701\<rparr>)
   \<and> loop (noInput\<lparr>upReleased := True, heldTime := 701\<rparr>) (activityAt 0 2) =
        Inr ((activityAt 0 2)\<lparr>selectedCategoryIndex := 3, selectedSettingIndex := 1,
               settingsList := systemSettings, settingsCount := 5, updateRequired := True\<rparr>)"
proof -
  let ?i = "noInput\<lparr>upReleased := True, heldTime := 701\<rparr>"
  have a: "subActivity (activityAt 0 2) = None" by simp
  have b: "\<not> confirmPressed ?i" "\<not> backPressed ?i" "heldTime ?i > 700"
          "upReleased ?i \<or> downReleased ?i"
    by (simp_all add: noInput_def)
  have c: "0 = selectedCategoryIndex (activityAt 0 2)" "(0::int) \<le> 0" "(0::int) \<le> 3"
          "3 = (if upReleased ?i then (0 - 1) mod 4 else (0 + 1) mod (4::int))"
    by simp_all
  have d: "tableOf 3 = systemSettings" "tableCount 3 = 5"
    by (simp_all add: tableOf_def tableCount_def systemSettingsCount_def)
  show ?thesis
    using held_gesture_changes_category [OF a b c] a b d by simp
qed

subsection \<open>The tables and the invariant\<close>

lemma tableCount_length: "tableCount c = int (length (tableOf c))"
  by (simp add: tableCount_def tableOf_def table_lengths displaySettingsCount_def
        readerSettingsCount_def controlsSettingsCount_def systemSettingsCount_def)

lemma tableCount_pos: "1 \<le> tableCount c"
  by (simp add: tableCount_def displaySettingsCount_def
        readerSettingsCount_def controlsSettingsCount_def systemSettingsCount_def)

lemma display_wellFormed: "list_all wellFormed displaySettings"
  by (simp add: displaySettings_def wellFormed_def Enum_def)

lemma reader_wellFormed: "list_all wellFormed readerSettings"
  by (simp add: readerSettings_def wellFormed_def Enum_def Toggle_def Value_def)

lemma controls_wellFormed: "list_all wellFormed controlsSettings"
  by (simp add: controlsSettings_def wellFormed_def Enum_def Toggle_def Action_def)

lemma system_wellFormed: "list_all wellFormed systemSettings"
  by (simp add: systemSettings_def wellFormed_def Enum_def Action_def)

lemma tables_wellFormed: "list_all wellFormed (tableOf c)"
  by (simp add: tableOf_def display_wellFormed reader_wellFormed controls_wellFormed
        system_wellFormed)

lemma inv_current:
  assumes "navInvariant s" "1 \<le> selectedSettingIndex s"
  shows "currentSetting s = Some (settingsList s ! nat (selectedSettingIndex s - 1))"
    and "wellFormed (settingsList s ! nat (selectedSettingIndex s - 1))"
proof -
  let ?i = "selectedSettingIndex s - 1"
  have len: "settingsCount s = int (length (settingsList s))"
    using assms(1) by (simp add: navInvariant_def tableCount_length)
  have bound: "0 \<le> ?i" "?i < settingsCount s"
    using assms by (simp_all add: navInvariant_def)
  then have lt: "nat ?i < length (settingsList s)" using len by linarith
  show "currentSetting s = Some (settingsList s ! nat ?i)"
    using bound lt by (simp add: currentSetting_def Let_def)
  have "list_all wellFormed (settingsList s)"
    using assms(1) by (simp add: navInvariant_def tables_wellFormed)
  then show "wellFormed (settingsList s ! nat ?i)"
    using lt by (simp add: list_all_length)
qed

lemma advance_wellFormed:
  assumes "wellFormed d"
  shows "\<exists>v. advance d w = Inr v"
proof (cases "type_s d")
  case ENUM
  then have "1 \<le> length (enumValues d)" "length (enumValues d) \<le> 255"
    using assms by (simp_all add: wellFormed_def)
  then show ?thesis using ENUM by (simp add: advance_def advanceEnum_ok)
qed (simp_all add: advance_def)

lemma loop_confirm_bound:
  assumes "subActivity s = None" "confirmPressed inp"
      and "currentSetting s = Some d" "type_s d \<noteq> ACTION" "valuePtr d = Some p"
      and "advance d (SETTINGS s p) = Inr v"
  shows "loop inp s = Inr (s\<lparr>SETTINGS := (SETTINGS s)(p := v),
           saveCount := Suc (saveCount s), updateRequired := True\<rparr>)"
proof (cases "type_s d")
  case TOGGLE
  then show ?thesis
    using loop_confirm_TOGGLE [OF assms(1-3) TOGGLE assms(5)] assms(6)
    by (simp add: advance_def)
next
  case ENUM
  then have "advanceEnum (length (enumValues d)) (SETTINGS s p) = Inr v"
    using assms(6) by (simp add: advance_def)
  then show ?thesis by (rule loop_confirm_ENUM [OF assms(1-3) ENUM assms(5)])
next
  case VALUE
  then show ?thesis
    using loop_confirm_VALUE [OF assms(1-3) VALUE assms(5)] assms(6)
    by (simp add: advance_def)
next
  case ACTION
  then show ?thesis using assms(4) by simp
qed

lemma loop_confirm_action:
  assumes "subActivity s = None" "confirmPressed inp"
      and "currentSetting s = Some d" "type_s d = ACTION"
  shows "loop inp s = Inr ((dispatchAction (name d) s)\<lparr>saveCount := Suc (saveCount s),
           updateRequired := True\<rparr>)"
proof -
  have "saveCount (dispatchAction (name d) s) = saveCount s"
    by (simp add: dispatchAction_def enterNewActivity_def)
  then show ?thesis
    using assms currentSetting_focus [OF assms(3)]
    by (simp add: loop_confirm_item toggle_ACTION [OF assms(3,4)] saveToFile_def)
qed

lemma item_confirm_frame:
  assumes "navInvariant s" and "subActivity s = None" and "confirmPressed inp"
      and "1 \<le> selectedSettingIndex s"
      and "d = settingsList s ! nat (selectedSettingIndex s - 1)"
      and "type_s d \<noteq> ACTION"
  shows "\<exists>p v. valuePtr d = Some p \<and> advance d (SETTINGS s p) = Inr v
           \<and> loop inp s = Inr (s\<lparr>SETTINGS := (SETTINGS s)(p := v),
                                  saveCount := Suc (saveCount s), updateRequired := True\<rparr>)"
proof -
  have cur: "currentSetting s = Some d" and wf: "wellFormed d"
    using inv_current [OF assms(1,4)] assms(5) by simp_all
  obtain p where p: "valuePtr d = Some p"
    using wf assms(6) by (auto simp: wellFormed_def)
  obtain v where v: "advance d (SETTINGS s p) = Inr v"
    using advance_wellFormed [OF wf] by blast
  show ?thesis
    using loop_confirm_bound [OF assms(2,3) cur assms(6) p v] p v by blast
qed

text \<open>
  Claim C9. In a state of the running screen (the invariant holds, no sub-screen is
  current), Confirm on the focused item \<open>i \<ge> 1\<close> whose descriptor \<open>i - 1\<close> is a Toggle, an
  Enum or a Value: the descriptor has a bound field \<open>p\<close>, and the cycle ends in the state
  that differs from the old one in exactly three places: the field \<open>p\<close> holds the new
  value \<open>v\<close>, one more save has been issued, and a redraw is pending. The new value is,
  for a Toggle, 1 if the field was 0 and 0 otherwise; for an Enum, the old value plus one
  modulo the number of labels; for a Value, \<open>min\<close> if the old value plus \<open>step\<close> exceeds
  \<open>max\<close> and the old value plus \<open>step\<close> otherwise. The focus, the category, the list and
  its count, and every other field are as before, whatever else the input holds.
\<close>

theorem confirm_item_frame:
  assumes "navInvariant s" and "subActivity s = None" and "confirmPressed inp"
      and "1 \<le> selectedSettingIndex s"
      and "d = settingsList s ! nat (selectedSettingIndex s - 1)"
      and "type_s d \<noteq> ACTION"
  shows "\<exists>p v. valuePtr d = Some p
           \<and> loop inp s = Inr (s\<lparr>SETTINGS := (SETTINGS s)(p := v),
                                  saveCount := Suc (saveCount s), updateRequired := True\<rparr>)
           \<and> (type_s d = TOGGLE \<longrightarrow> v = (if SETTINGS s p = 0 then 1 else 0))
           \<and> (type_s d = ENUM \<longrightarrow>
                unat v = (unat (SETTINGS s p) + 1) mod length (enumValues d)
                \<and> unat v < length (enumValues d))
           \<and> (type_s d = VALUE \<longrightarrow>
                v = (if sint (SETTINGS s p) + step_r (valueRange d) > max_r (valueRange d)
                     then word_of_int (min_r (valueRange d))
                     else word_of_int (sint (SETTINGS s p) + step_r (valueRange d))))"
proof -
  have wf: "wellFormed d"
    using inv_current(2) [OF assms(1,4)] assms(5) by simp
  obtain p v where pv: "valuePtr d = Some p" "advance d (SETTINGS s p) = Inr v"
      "loop inp s = Inr (s\<lparr>SETTINGS := (SETTINGS s)(p := v),
                           saveCount := Suc (saveCount s), updateRequired := True\<rparr>)"
    using item_confirm_frame [OF assms] by blast
  have tg: "type_s d = TOGGLE \<Longrightarrow> v = (if SETTINGS s p = 0 then 1 else 0)"
    using pv(2) by (auto simp: advance_def advanceToggle_def Let_def)
  have en: "unat v = (unat (SETTINGS s p) + 1) mod length (enumValues d)
            \<and> unat v < length (enumValues d)" if e: "type_s d = ENUM"
  proof -
    have k: "1 \<le> length (enumValues d)" "length (enumValues d) \<le> 255"
      using wf e by (simp_all add: wellFormed_def)
    have "advanceEnum (length (enumValues d)) (SETTINGS s p) = Inr v"
      using pv(2) e by (simp add: advance_def)
    then have "unat v = (unat (SETTINGS s p) + 1) mod length (enumValues d)"
      using k by (rule advanceEnum_unat [rotated 2])
    moreover have "0 < length (enumValues d)" using k(1) by linarith
    ultimately show ?thesis by simp
  qed
  have vl: "type_s d = VALUE \<Longrightarrow>
        v = (if sint (SETTINGS s p) + step_r (valueRange d) > max_r (valueRange d)
             then word_of_int (min_r (valueRange d))
             else word_of_int (sint (SETTINGS s p) + step_r (valueRange d)))"
    using pv(2) by (auto simp: advance_def advanceValue_def Let_def)
  show ?thesis using pv(1,3) tg en vl by blast
qed

lemma navInvariant_activityAt:
  "0 \<le> c \<Longrightarrow> c \<le> 3 \<Longrightarrow> 0 \<le> i \<Longrightarrow> i \<le> tableCount c \<Longrightarrow> navInvariant (activityAt c i)"
  by (simp add: navInvariant_def)

lemma navInvariant_setField [simp]: "navInvariant (setField f v s) = navInvariant s"
  by (simp add: navInvariant_def setField_def)

theorem confirm_item_frame_witness:
  "navInvariant (setField fontSize 3 (activityAt 1 2))
   \<and> subActivity (setField fontSize 3 (activityAt 1 2)) = None
   \<and> confirmPressed (confirmInput\<lparr>backPressed := True, downReleased := True\<rparr>)
   \<and> (1::int) \<le> selectedSettingIndex (setField fontSize 3 (activityAt 1 2))
   \<and> settingsList (setField fontSize 3 (activityAt 1 2))
        ! nat (selectedSettingIndex (setField fontSize 3 (activityAt 1 2)) - 1)
      = Enum ''Font Size'' fontSize [''Small'', ''Medium'', ''Large'', ''X Large'']
   \<and> loop (confirmInput\<lparr>backPressed := True, downReleased := True\<rparr>)
        (setField fontSize 3 (activityAt 1 2)) =
      Inr ((setField fontSize 3 (activityAt 1 2))
             \<lparr>SETTINGS := (SETTINGS (setField fontSize 3 (activityAt 1 2)))(fontSize := 0),
               saveCount := 1, updateRequired := True\<rparr>)"
proof -
  let ?s = "setField fontSize 3 (activityAt 1 2)"
  let ?i = "confirmInput\<lparr>backPressed := True, downReleased := True\<rparr>"
  let ?d = "Enum ''Font Size'' fontSize [''Small'', ''Medium'', ''Large'', ''X Large'']"
  have a: "navInvariant ?s"
    by (simp add: navInvariant_activityAt tableCount_def readerSettingsCount_def)
  have b: "subActivity ?s = None" "confirmPressed ?i" "1 \<le> selectedSettingIndex ?s"
    by (simp_all add: setField_def)
  have c: "?d = settingsList ?s ! nat (selectedSettingIndex ?s - 1)"
    by (simp add: setField_def tableOf_def readerSettings_def)
  have d: "type_s ?d \<noteq> ACTION" "valuePtr ?d = Some fontSize"
    by (simp_all add: Enum_def)
  have e: "type_s ?d = ENUM" "length (enumValues ?d) = 4" "unat (SETTINGS ?s fontSize) = 3"
    by (simp_all add: Enum_def setField_def)
  have f: "saveCount ?s = 0" by (simp add: setField_def)
  obtain p v where pv: "valuePtr ?d = Some p"
      "loop ?i ?s = Inr (?s\<lparr>SETTINGS := (SETTINGS ?s)(p := v),
                           saveCount := Suc (saveCount ?s), updateRequired := True\<rparr>)"
      "unat v = (unat (SETTINGS ?s p) + 1) mod length (enumValues ?d)"
    using confirm_item_frame [OF a b c d(1)] e(1) by blast
  have p: "p = fontSize" using pv(1) d(2) by simp
  have "unat v = unat (0 :: 8 word)" using pv(3) e(2,3) p by simp
  then have v: "v = 0" by (simp only: word_unat_eq_iff)
  show ?thesis
    using pv(2) a b c [symmetric] f unfolding p v by simp
qed

subsection \<open>Preservation of the invariant\<close>

lemma navInvariant_onEnter: "navInvariant (onEnter s)"
  by (simp add: navInvariant_def onEnter_def tableOf_def tableCount_def
        displaySettingsCount_def)

lemma dispatchAction_nav:
  "selectedCategoryIndex (dispatchAction n s) = selectedCategoryIndex s"
  "selectedSettingIndex (dispatchAction n s) = selectedSettingIndex s"
  "settingsList (dispatchAction n s) = settingsList s"
  "settingsCount (dispatchAction n s) = settingsCount s"
  "goHomeCount (dispatchAction n s) = goHomeCount s"
  "SETTINGS (dispatchAction n s) = SETTINGS s"
  by (simp_all add: dispatchAction_def enterNewActivity_def)

lemma navInvariant_cong:
  assumes "navInvariant s"
      and "selectedCategoryIndex s' = selectedCategoryIndex s"
      and "selectedSettingIndex s' = selectedSettingIndex s"
      and "settingsList s' = settingsList s" and "settingsCount s' = settingsCount s"
  shows "navInvariant s'"
  using assms by (simp add: navInvariant_def)

lemma loop_confirm_item_inv:
  assumes "navInvariant s" "subActivity s = None" "confirmPressed inp"
      and "selectedSettingIndex s \<noteq> 0"
  shows "\<exists>s'. loop inp s = Inr s' \<and> navInvariant s' \<and> goHomeCount s' = goHomeCount s"
proof -
  let ?d = "settingsList s ! nat (selectedSettingIndex s - 1)"
  have pos: "1 \<le> selectedSettingIndex s"
    using assms(1,4) by (simp add: navInvariant_def)
  have cur: "currentSetting s = Some ?d" and wf: "wellFormed ?d"
    using inv_current [OF assms(1) pos] by simp_all
  show ?thesis
  proof (cases "type_s ?d = ACTION")
    case True
    let ?s' = "(dispatchAction (name ?d) s)\<lparr>saveCount := Suc (saveCount s),
           updateRequired := True\<rparr>"
    have "loop inp s = Inr ?s'"
      using loop_confirm_action [OF assms(2,3) cur True] .
    moreover have "navInvariant ?s'"
      using assms(1) by (rule navInvariant_cong) (simp_all add: dispatchAction_nav)
    moreover have "goHomeCount ?s' = goHomeCount s"
      by (simp add: dispatchAction_nav)
    ultimately show ?thesis by blast
  next
    case False
    obtain p v where "loop inp s = Inr (s\<lparr>SETTINGS := (SETTINGS s)(p := v),
                                  saveCount := Suc (saveCount s), updateRequired := True\<rparr>)"
      using item_confirm_frame [OF assms(1-3) pos refl False] by blast
    moreover have "navInvariant (s\<lparr>SETTINGS := (SETTINGS s)(p := v),
                                  saveCount := Suc (saveCount s), updateRequired := True\<rparr>)"
      using assms(1) by (rule navInvariant_cong) simp_all
    ultimately show ?thesis by auto
  qed
qed

lemma nextCategory_range: "0 \<le> c \<Longrightarrow> c \<le> 3 \<Longrightarrow> 0 \<le> nextCategory c \<and> nextCategory c \<le> 3"
  by (simp add: nextCategory_def categoryCount_def)

lemma prevCategory_range: "0 \<le> c \<Longrightarrow> c \<le> 3 \<Longrightarrow> 0 \<le> prevCategory c \<and> prevCategory c \<le> 3"
  by (simp add: prevCategory_def categoryCount_def)

lemma rebindCategory_inv:
  assumes "0 \<le> selectedCategoryIndex s" "selectedCategoryIndex s \<le> 3"
  shows "navInvariant (rebindCategory s)"
  using assms tableCount_pos [of "selectedCategoryIndex s"]
  by (simp add: rebindCategory_bound navInvariant_def)

lemma rebindCategory_goHome: "goHomeCount (rebindCategory s) = goHomeCount s"
  by (simp add: rebindCategory_def Let_def)

lemma handleNavigation_category:
  assumes "0 \<le> selectedCategoryIndex s" "selectedCategoryIndex s \<le> 3"
  shows "0 \<le> selectedCategoryIndex (snd (handleNavigation inp (h, s)))
       \<and> selectedCategoryIndex (snd (handleNavigation inp (h, s))) \<le> 3
       \<and> goHomeCount (snd (handleNavigation inp (h, s))) = goHomeCount s"
  using assms nextCategory_range [OF assms] prevCategory_range [OF assms]
  by (simp add: handleNavigation_def Let_def)

lemma handleNavigation_flag: "h \<Longrightarrow> fst (handleNavigation inp (h, s))"
  by (simp add: handleNavigation_def Let_def)

lemma handleNavigation_plain_inv:
  assumes "navInvariant s" "\<not> fst (handleNavigation inp (False, s))"
  shows "navInvariant (snd (handleNavigation inp (False, s)))"
  using assms
  by (auto simp: handleNavigation_def Let_def navInvariant_def split: if_splits)

lemma loop_inv:
  assumes "navInvariant s"
  shows "\<exists>s'. loop inp s = Inr s'
           \<and> (goHomeCount s' = goHomeCount s \<longrightarrow> navInvariant s')
           \<and> (\<not> backPressed inp \<longrightarrow> goHomeCount s' = goHomeCount s)"
proof (cases "subActivity s = None")
  case False
  have "navInvariant (subActivityLoop inp s)"
    using assms by (rule navInvariant_cong) (simp_all add: subActivityLoop_def onComplete_def)
  moreover have "goHomeCount (subActivityLoop inp s) = goHomeCount s"
    by (simp add: subActivityLoop_def onComplete_def)
  ultimately show ?thesis using False by (simp add: loop_def)
next
  case True
  show ?thesis
  proof (cases "confirmPressed inp \<and> selectedSettingIndex s \<noteq> 0")
    case item: True
    then show ?thesis using loop_confirm_item_inv [OF assms True] by blast
  next
    case noitem: False
    let ?s1 = "s\<lparr>selectedCategoryIndex := nextCategory (selectedCategoryIndex s),
                  updateRequired := True\<rparr>"
    have cat: "0 \<le> selectedCategoryIndex s" "selectedCategoryIndex s \<le> 3"
      using assms by (simp_all add: navInvariant_def)
    show ?thesis
    proof (cases "backPressed inp")
      case isback: True
      then show ?thesis
        using True noitem by (simp add: loop_def Let_def onGoHome_def saveToFile_def)
    next
      case noback: False
      show ?thesis
      proof (cases "confirmPressed inp")
        case confirm: True
        let ?n = "handleNavigation inp (True, ?s1)"
        have lp: "loop inp s = Inr (rebindCategory (snd ?n))"
          using True noitem noback confirm
          by (simp add: loop_def Let_def handleNavigation_flag)
        have "0 \<le> selectedCategoryIndex ?s1" "selectedCategoryIndex ?s1 \<le> 3"
          using nextCategory_range [OF cat] by simp_all
        then have n: "0 \<le> selectedCategoryIndex (snd ?n)" "selectedCategoryIndex (snd ?n) \<le> 3"
            "goHomeCount (snd ?n) = goHomeCount s"
          using handleNavigation_category [of ?s1 inp True] by simp_all
        show ?thesis
          using lp rebindCategory_inv [OF n(1,2)] n(3) by (simp add: rebindCategory_goHome)
      next
        case noconfirm: False
        let ?n = "handleNavigation inp (False, s)"
        have n: "0 \<le> selectedCategoryIndex (snd ?n)" "selectedCategoryIndex (snd ?n) \<le> 3"
            "goHomeCount (snd ?n) = goHomeCount s"
          using handleNavigation_category [OF cat, of inp False] by simp_all
        have lp: "loop inp s = Inr (if fst ?n then rebindCategory (snd ?n) else snd ?n)"
          using loop_navigation [OF True noconfirm noback] .
        show ?thesis
        proof (cases "fst ?n")
          case True
          then show ?thesis
            using lp rebindCategory_inv [OF n(1,2)] n(3) by (simp add: rebindCategory_goHome)
        next
          case False
          then show ?thesis
            using lp handleNavigation_plain_inv [OF assms False] n(3) by simp
        qed
      qed
    qed
  qed
qed

lemma runLoop_inv:
  assumes "list_all (\<lambda>inp. \<not> backPressed inp) inps"
  shows "navInvariant s \<Longrightarrow> \<exists>s'. runLoop inps s = Inr s' \<and> navInvariant s'"
  using assms
proof (induction inps arbitrary: s)
  case Nil
  then show ?case by simp
next
  case (Cons inp inps)
  obtain s1 where "loop inp s = Inr s1" "navInvariant s1"
    using loop_inv [OF Cons.prems(1), of inp] Cons.prems(2) by auto
  then show ?case using Cons.IH [of s1] Cons.prems(2) by simp
qed

lemma reader_last_held_down:
  "loop (noInput\<lparr>downReleased := True, heldTime := 800\<rparr>) (activityAt 1 9) =
     Inr ((activityAt 1 9)\<lparr>selectedCategoryIndex := 2, selectedSettingIndex := 1,
            settingsList := controlsSettings, settingsCount := 4, updateRequired := True\<rparr>)"
  by (simp add: loop_def handleNavigation_def rebindCategory_def Let_def noInput_def
        changeTabsMs_def nextCategory_def categoryCount_def controlsSettingsCount_def)

text \<open>
  Claim C4. The invariant (category in 0 to 3; the bound list and count are the table of
  that category, of 7, 9, 4 and 5 descriptors; focus in \<open>[0, count]\<close>) holds after
  \<^verbatim>\<open>onEnter\<close>. From a state with the invariant every cycle is defined, and the
  invariant holds after it as long as the cycle has not called \<^verbatim>\<open>onGoHome\<close>, which
  leaves the screen; so it holds after every sequence of cycles without Back.
\<close>

theorem navigation_invariant:
  "navInvariant (onEnter s0)
   \<and> (navInvariant s \<longrightarrow>
        (\<exists>s'. loop inp s = Inr s' \<and> (goHomeCount s' = goHomeCount s \<longrightarrow> navInvariant s')))
   \<and> (navInvariant s \<and> list_all (\<lambda>i. \<not> backPressed i) inps \<longrightarrow>
        (\<exists>s'. runLoop inps s = Inr s' \<and> navInvariant s'))
   \<and> tableOf 0 = displaySettings \<and> tableCount 0 = 7 \<and> length displaySettings = 7
   \<and> tableOf 1 = readerSettings \<and> tableCount 1 = 9 \<and> length readerSettings = 9
   \<and> tableOf 2 = controlsSettings \<and> tableCount 2 = 4 \<and> length controlsSettings = 4
   \<and> tableOf 3 = systemSettings \<and> tableCount 3 = 5 \<and> length systemSettings = 5"
proof -
  have "navInvariant s \<Longrightarrow>
        \<exists>s'. loop inp s = Inr s' \<and> (goHomeCount s' = goHomeCount s \<longrightarrow> navInvariant s')"
    using loop_inv [of s inp] by blast
  moreover have "navInvariant s \<and> list_all (\<lambda>i. \<not> backPressed i) inps \<Longrightarrow>
        \<exists>s'. runLoop inps s = Inr s' \<and> navInvariant s'"
    using runLoop_inv [of inps s] by blast
  moreover have "tableOf 0 = displaySettings \<and> tableCount 0 = 7
     \<and> tableOf 1 = readerSettings \<and> tableCount 1 = 9
     \<and> tableOf 2 = controlsSettings \<and> tableCount 2 = 4
     \<and> tableOf 3 = systemSettings \<and> tableCount 3 = 5"
    by (simp add: tableOf_def tableCount_def displaySettingsCount_def readerSettingsCount_def
          controlsSettingsCount_def systemSettingsCount_def)
  ultimately show ?thesis
    using navInvariant_onEnter [of s0] table_lengths by blast
qed

theorem navigation_invariant_witness:
  "navInvariant (activityAt 1 9)
   \<and> list_all (\<lambda>i. \<not> backPressed i) [noInput\<lparr>downReleased := True, heldTime := 800\<rparr>]
   \<and> loop (noInput\<lparr>downReleased := True, heldTime := 800\<rparr>) (activityAt 1 9) =
       Inr ((activityAt 1 9)\<lparr>selectedCategoryIndex := 2, selectedSettingIndex := 1,
              settingsList := controlsSettings, settingsCount := 4, updateRequired := True\<rparr>)
   \<and> navInvariant ((activityAt 1 9)\<lparr>selectedCategoryIndex := 2, selectedSettingIndex := 1,
              settingsList := controlsSettings, settingsCount := 4, updateRequired := True\<rparr>)"
proof -
  let ?i = "noInput\<lparr>downReleased := True, heldTime := 800\<rparr>"
  have a: "navInvariant (activityAt 1 9)"
    by (simp add: navInvariant_activityAt tableCount_def readerSettingsCount_def)
  have b: "list_all (\<lambda>i. \<not> backPressed i) [?i]" by (simp add: noInput_def)
  show ?thesis
    using navigation_invariant [of freshActivity "activityAt 1 9" ?i "[?i]"]
      a b reader_last_held_down
    by simp
qed

subsection \<open>Defensive branches of \<^verbatim>\<open>toggleCurrentSetting\<close>\<close>

lemma dispatchAction_unknown: "n \<notin> set knownActions \<Longrightarrow> dispatchAction n s = s"
  by (simp add: dispatchAction_def knownActions_def)

text \<open>
  Claim C10. \<^verbatim>\<open>toggleCurrentSetting\<close> returns the state as it was when the focus
  index is outside the list, and when the focused Toggle, Enum or Value descriptor has no
  bound field. For an Action whose name is none of the five known names no sub-screen is
  entered: the state is as it was, except that the save of line 250 is still issued.
  (\<^verbatim>\<open>loop\<close> then marks the redraw.)
\<close>

theorem errors_are_ignored:
  "(selectedSettingIndex s - 1 < 0 \<or> selectedSettingIndex s - 1 \<ge> settingsCount s
      \<longrightarrow> toggleCurrentSetting s = Inr s)
   \<and> (currentSetting s = Some d \<and> type_s d \<noteq> ACTION \<and> valuePtr d = None
      \<longrightarrow> toggleCurrentSetting s = Inr s)
   \<and> (currentSetting s = Some d \<and> type_s d = ACTION \<and> name d \<notin> set knownActions
      \<longrightarrow> toggleCurrentSetting s = Inr (saveToFile s)
          \<and> subActivity (saveToFile s) = subActivity s
          \<and> SETTINGS (saveToFile s) = SETTINGS s
          \<and> selectedCategoryIndex (saveToFile s) = selectedCategoryIndex s
          \<and> selectedSettingIndex (saveToFile s) = selectedSettingIndex s
          \<and> settingsList (saveToFile s) = settingsList s
          \<and> settingsCount (saveToFile s) = settingsCount s)"
proof (intro conjI impI)
  assume "selectedSettingIndex s - 1 < 0 \<or> selectedSettingIndex s - 1 \<ge> settingsCount s"
  then show "toggleCurrentSetting s = Inr s" by (rule toggle_out_of_bounds)
next
  assume "currentSetting s = Some d \<and> type_s d \<noteq> ACTION \<and> valuePtr d = None"
  then show "toggleCurrentSetting s = Inr s" using toggle_unbound [of s d] by blast
next
  assume "currentSetting s = Some d \<and> type_s d = ACTION \<and> name d \<notin> set knownActions"
  then show "toggleCurrentSetting s = Inr (saveToFile s)"
    using toggle_ACTION [of s d] dispatchAction_unknown [of "name d" s] by simp
qed (simp_all add: saveToFile_def)

theorem errors_are_ignored_witness:
  "settingsCount (activityAt 0 9) \<le> selectedSettingIndex (activityAt 0 9) - 1
   \<and> toggleCurrentSetting (activityAt 0 9) = Inr (activityAt 0 9)
   \<and> currentSetting ((activityAt 0 1)\<lparr>settingsList := [(Toggle ''Orphan'' uiTheme)\<lparr>valuePtr := None\<rparr>],
          settingsCount := 1\<rparr>) = Some ((Toggle ''Orphan'' uiTheme)\<lparr>valuePtr := None\<rparr>)
   \<and> toggleCurrentSetting ((activityAt 0 1)\<lparr>settingsList :=
          [(Toggle ''Orphan'' uiTheme)\<lparr>valuePtr := None\<rparr>], settingsCount := 1\<rparr>)
       = Inr ((activityAt 0 1)\<lparr>settingsList := [(Toggle ''Orphan'' uiTheme)\<lparr>valuePtr := None\<rparr>],
          settingsCount := 1\<rparr>)
   \<and> currentSetting ((activityAt 0 1)\<lparr>settingsList := [Action ''Factory Reset''],
          settingsCount := 1\<rparr>) = Some (Action ''Factory Reset'')
   \<and> ''Factory Reset'' \<notin> set knownActions
   \<and> toggleCurrentSetting ((activityAt 0 1)\<lparr>settingsList := [Action ''Factory Reset''],
          settingsCount := 1\<rparr>)
       = Inr ((activityAt 0 1)\<lparr>settingsList := [Action ''Factory Reset''],
          settingsCount := 1, saveCount := 1\<rparr>)"
proof -
  let ?o = "(Toggle ''Orphan'' uiTheme)\<lparr>valuePtr := None\<rparr>"
  let ?a = "Action ''Factory Reset''"
  let ?s2 = "(activityAt 0 1)\<lparr>settingsList := [?o], settingsCount := 1\<rparr>"
  let ?s3 = "(activityAt 0 1)\<lparr>settingsList := [?a], settingsCount := 1\<rparr>"
  have a: "settingsCount (activityAt 0 9) \<le> selectedSettingIndex (activityAt 0 9) - 1"
    by (simp add: tableCount_def displaySettingsCount_def)
  have b: "currentSetting ?s2 = Some ?o" "type_s ?o \<noteq> ACTION" "valuePtr ?o = None"
    by (simp_all add: currentSetting_def Toggle_def)
  have c: "currentSetting ?s3 = Some ?a" "type_s ?a = ACTION" "name ?a \<notin> set knownActions"
    by (simp_all add: currentSetting_def Action_def knownActions_def)
  have d: "name ?a = ''Factory Reset''" by (simp add: Action_def)
  have e: "saveToFile ?s3 = ?s3\<lparr>saveCount := 1\<rparr>" by (simp add: saveToFile_def)
  show ?thesis
    using errors_are_ignored [of "activityAt 0 9" ?o] errors_are_ignored [of ?s2 ?o]
      errors_are_ignored [of ?s3 ?a] a b c d e
    by simp
qed

subsection \<open>Confirm on the tab row\<close>

lemma loop_confirm_tab_alone:
  assumes "subActivity s = None" "confirmPressed inp" "selectedSettingIndex s = 0"
      and "\<not> backPressed inp" "\<not> upReleased inp" "\<not> downReleased inp"
      and "\<not> leftReleased inp" "\<not> rightReleased inp"
      and "0 \<le> selectedCategoryIndex s" "selectedCategoryIndex s \<le> 3"
  shows "loop inp s =
           Inr (s\<lparr>selectedCategoryIndex := (selectedCategoryIndex s + 1) mod 4,
                  settingsList := tableOf ((selectedCategoryIndex s + 1) mod 4),
                  settingsCount := tableCount ((selectedCategoryIndex s + 1) mod 4),
                  updateRequired := True\<rparr>)"
proof -
  let ?s1 = "s\<lparr>selectedCategoryIndex := (selectedCategoryIndex s + 1) mod 4,
                updateRequired := True\<rparr>"
  have rng: "0 \<le> selectedCategoryIndex ?s1" "selectedCategoryIndex ?s1 \<le> 3"
    using category_mod_range [of "selectedCategoryIndex s + 1"] by simp_all
  have "loop inp s = Inr (rebindCategory ?s1)"
    using assms by (simp add: loop_def Let_def handleNavigation_def next_mod)
  then show ?thesis
    using rebindCategory_bound [OF rng] assms(3) by simp
qed

lemma loop_back_alone:
  assumes "subActivity s = None" "\<not> confirmPressed inp" "backPressed inp"
  shows "loop inp s = Inr (onGoHome (saveToFile s))"
  using assms by (simp add: loop_def)

text \<open>
  Claim C1 fails when a direction is released in the cycle of the Confirm: the Confirm
  branch for the tab row does not end the cycle, so line 155 moves the focus before the
  list is rebound. From Display with the tab row focused, Confirm together with a release
  of Right ends on Reader with \<open>selectedSettingIndex = 1\<close>.
\<close>

theorem confirm_tab_with_right_release:
  "selectedSettingIndex (activityAt 0 0) = 0
   \<and> loop (confirmInput\<lparr>rightReleased := True\<rparr>) (activityAt 0 0) =
       Inr ((activityAt 0 0)\<lparr>selectedCategoryIndex := 1, selectedSettingIndex := 1,
              settingsList := readerSettings, settingsCount := 9\<rparr>)"
  by (simp add: loop_def handleNavigation_def rebindCategory_def Let_def confirmInput_def
        noInput_def changeTabsMs_def nextCategory_def categoryCount_def
        readerSettingsCount_def activityAt_def onEnter_def freshActivity_def
        tableCount_def displaySettingsCount_def)

text \<open>
  Claim C2 fails for the same reason: after Confirm on the tab row the later rules still
  act. With a held release of Down the category advances twice (Display to Controls);
  with Back the category is advanced, then the settings are saved and the screen is left.
\<close>

theorem confirm_tab_falls_through:
  "loop (confirmInput\<lparr>downReleased := True, heldTime := 800\<rparr>) (activityAt 0 0) =
       Inr ((activityAt 0 0)\<lparr>selectedCategoryIndex := 2,
              settingsList := controlsSettings, settingsCount := 4\<rparr>)
   \<and> loop (confirmInput\<lparr>backPressed := True\<rparr>) (activityAt 0 0) =
       Inr ((activityAt 0 0)\<lparr>selectedCategoryIndex := 1, saveCount := 1, goHomeCount := 1\<rparr>)"
  by (simp add: loop_def handleNavigation_def rebindCategory_def Let_def confirmInput_def
        noInput_def changeTabsMs_def nextCategory_def categoryCount_def
        controlsSettingsCount_def activityAt_def onEnter_def freshActivity_def
        tableCount_def displaySettingsCount_def onGoHome_def saveToFile_def)

end
